theory Spec2Isabelle
  imports Complex_Main "HOL-Library.Multiset" "HOL-Library.AList"
    "HOL-Library.Signed_Division"
begin

text \<open>
  A model of the procedural layout generation of a voxel level: the sparse voxel grid, the
  four layout generators (Basic, Walls, Cave, Tower), the extraction of box primitives from
  the grid, the layout component that delegates to the active generator, and the reset of
  the environment. Each function of the sources is a function here under its own name;
  a method \<open>m\<close> of a generator class \<open>C\<close> is \<open>m_C\<close>. Steps that can fail return a sum with
  the error on the left, and loops that need not end return an option.
\<close>


section \<open>Data model\<close>

text \<open>
  A voxel coordinate is an integer triple (\<^verbatim>\<open>Magnum::Vector3i\<close>); the accessors
  \<^verbatim>\<open>x()\<close>, \<^verbatim>\<open>y()\<close>, \<^verbatim>\<open>z()\<close> are \<open>vx\<close>, \<open>vy\<close>, \<open>vz\<close>. The coordinates the
  generators produce stay far below the range of a 32-bit \<^verbatim>\<open>int\<close>, so they are
  modelled as unbounded integers.
\<close>

datatype VoxelCoords = VoxelCoords (vx: int) (vy: int) (vz: int)

text \<open>
  Modelled from the spec: \<^verbatim>\<open>VoxelState\<close> (declared in a header that is not among the sources modelled here) is a solid
  flag and an optional back-reference to an attached object, here an opaque handle.
  \<^verbatim>\<open>VoxelState(true)\<close> is \<open>solidVoxel\<close>.
\<close>

record VoxelState =
  solid :: bool
  obj :: "nat option"

definition solidVoxel :: VoxelState where
  "solidVoxel = \<lparr>solid = True, obj = None\<rparr>"

text \<open>
  Modelled from the spec: \<^verbatim>\<open>VoxelGrid\<close> (declared in a header that is not among the sources modelled here) is a sparse
  map from coordinates to voxel states. Its contents are kept as an association list with
  one entry per key: \<open>grid_get\<close> returns nothing for an absent coordinate, \<open>grid_set\<close>
  inserts or overwrites, \<open>grid_clear\<close> empties the grid. The order in which an iteration
  over the map yields the entries is unspecified: it is not the order of this list, and it
  is not fixed by the insertions (a hash map may keep its bucket array when it is cleared).
  \<open>extractPrimitives\<close>, the one place where the code iterates over the map, is given the
  entries in the order in which the iteration yields them, and what is proved of it is
  proved for every such order.
\<close>

type_synonym VoxelGrid = "(VoxelCoords \<times> VoxelState) list"

definition grid_get :: "VoxelGrid \<Rightarrow> VoxelCoords \<Rightarrow> VoxelState option" where
  "grid_get grid coords = map_of grid coords"

definition grid_set :: "VoxelGrid \<Rightarrow> VoxelCoords \<Rightarrow> VoxelState \<Rightarrow> VoxelGrid" where
  "grid_set grid coords st = AList.update coords st grid"

definition grid_clear :: "VoxelGrid \<Rightarrow> VoxelGrid" where
  "grid_clear grid = []"

text \<open>The test \<^verbatim>\<open>v && v->solid\<close> on the result of \<^verbatim>\<open>grid.get(coords)\<close>.\<close>

definition isSolid :: "VoxelGrid \<Rightarrow> VoxelCoords \<Rightarrow> bool" where
  "isSolid grid coords = (case grid_get grid coords of None \<Rightarrow> False | Some v \<Rightarrow> solid v)"

text \<open>
  Modelled from the spec: \<^verbatim>\<open>BoundingBox\<close> (declared in a header that is not among the sources modelled here) has two
  inclusive corners, and \<^verbatim>\<open>addPoint\<close> widens the box to include a coordinate.
\<close>

record BoundingBox =
  bmin :: VoxelCoords
  bmax :: VoxelCoords

definition addPoint :: "BoundingBox \<Rightarrow> VoxelCoords \<Rightarrow> BoundingBox" where
  "addPoint bbox p =
     \<lparr>bmin = VoxelCoords (min (vx (bmin bbox)) (vx p)) (min (vy (bmin bbox)) (vy p))
               (min (vz (bmin bbox)) (vz p)),
      bmax = VoxelCoords (max (vx (bmax bbox)) (vx p)) (max (vy (bmax bbox)) (vy p))
               (max (vz (bmax bbox)) (vz p))\<rparr>"

text \<open>The voxels a box covers, both corners included.\<close>

definition coverage :: "BoundingBox \<Rightarrow> VoxelCoords set" where
  "coverage bbox =
     {c. vx (bmin bbox) \<le> vx c \<and> vx c \<le> vx (bmax bbox) \<and>
         vy (bmin bbox) \<le> vy c \<and> vy c \<le> vy (bmax bbox) \<and>
         vz (bmin bbox) \<le> vz c \<and> vz c \<le> vz (bmax bbox)}"

section \<open>Primitive extraction\<close>

text \<open>
  The three axis directions, and the order in which the two nested loops
  (\<^verbatim>\<open>for direction\<close>, \<^verbatim>\<open>for sign = -1, +1\<close>) visit the six signed directions.
\<close>

definition directions :: "VoxelCoords list" where
  "directions = [VoxelCoords 1 0 0, VoxelCoords 0 1 0, VoxelCoords 0 0 1]"

definition scaleDir :: "VoxelCoords \<Rightarrow> int \<Rightarrow> VoxelCoords" where
  "scaleDir d s = VoxelCoords (vx d * s) (vy d * s) (vz d * s)"

definition signedDirections :: "VoxelCoords list" where
  "signedDirections = concat (map (\<lambda>direction. map (scaleDir direction) [- 1, 1]) directions)"

record CoordRange =
  rmin :: int
  rmax :: int

definition startEndCoord :: "int \<Rightarrow> int \<Rightarrow> int \<Rightarrow> CoordRange" where
  "startEndCoord bboxMin bboxMax direction =
     (if direction = 1 then \<lparr>rmin = bboxMax + 1, rmax = bboxMax + 1\<rparr>
      else if direction = - 1 then \<lparr>rmin = bboxMin - 1, rmax = bboxMin - 1\<rparr>
      else \<lparr>rmin = bboxMin, rmax = bboxMax\<rparr>)"

text \<open>
  The coordinates of the next layer in direction \<open>d\<close>, in the order of the three nested
  loops over \<open>xlim\<close>, \<open>ylim\<close> and \<open>zlim\<close>.
\<close>

definition layerCoords :: "BoundingBox \<Rightarrow> VoxelCoords \<Rightarrow> VoxelCoords list" where
  "layerCoords bbox d =
     (let xlim = startEndCoord (vx (bmin bbox)) (vx (bmax bbox)) (vx d);
          ylim = startEndCoord (vy (bmin bbox)) (vy (bmax bbox)) (vy d);
          zlim = startEndCoord (vz (bmin bbox)) (vz (bmax bbox)) (vz d)
      in concat (map (\<lambda>x. concat (map (\<lambda>y. map (\<lambda>z. VoxelCoords x y z)
           [rmin zlim..rmax zlim]) [rmin ylim..rmax ylim])) [rmin xlim..rmax xlim]))"

text \<open>
  The test of one layer coordinate: the scan leaves the loops (\<^verbatim>\<open>goto afterLoop\<close>) at the
  first coordinate that is absent, not solid or already visited.
\<close>

definition canTake :: "VoxelGrid \<Rightarrow> VoxelCoords set \<Rightarrow> VoxelCoords \<Rightarrow> bool" where
  "canTake grid visited coords = (isSolid grid coords \<and> coords \<notin> visited)"

definition commitExpansion ::
  "VoxelCoords list \<Rightarrow> VoxelCoords set \<times> BoundingBox \<Rightarrow> VoxelCoords set \<times> BoundingBox" where
  "commitExpansion expansion st =
     fold (\<lambda>newVoxelCoord (visited, bbox). (insert newVoxelCoord visited, addPoint bbox newVoxelCoord))
       expansion st"

text \<open>
  The loop \<^verbatim>\<open>while (true)\<close> that grows the box in one direction. Nothing in the loop
  itself bounds the number of rounds, so not returning is the value \<open>None\<close>.
\<close>

partial_function (option) expandDir ::
  "VoxelGrid \<Rightarrow> VoxelCoords \<Rightarrow> VoxelCoords set \<Rightarrow> BoundingBox \<Rightarrow>
   (VoxelCoords set \<times> BoundingBox) option" where
  "expandDir grid d visited bbox =
     (if list_all (canTake grid visited) (layerCoords bbox d)
      then expandDir grid d (fst (commitExpansion (layerCoords bbox d) (visited, bbox)))
             (snd (commitExpansion (layerCoords bbox d) (visited, bbox)))
      else Some (visited, bbox))"

declare expandDir.simps [code]

fun expandAll ::
  "VoxelGrid \<Rightarrow> VoxelCoords list \<Rightarrow> VoxelCoords set \<Rightarrow> BoundingBox \<Rightarrow>
   (VoxelCoords set \<times> BoundingBox) option" where
  "expandAll grid [] visited bbox = Some (visited, bbox)"
| "expandAll grid (d # ds) visited bbox =
     (case expandDir grid d visited bbox of
        None \<Rightarrow> None
      | Some (visited', bbox') \<Rightarrow> expandAll grid ds visited' bbox')"

text \<open>
  The loop over the entries of the hash map, with the visited set and the boxes found so
  far.
\<close>

fun extractLoop ::
  "VoxelGrid \<Rightarrow> (VoxelCoords \<times> VoxelState) list \<Rightarrow> VoxelCoords set \<Rightarrow> BoundingBox list \<Rightarrow>
   BoundingBox list option" where
  "extractLoop grid [] visited parallelepipeds = Some parallelepipeds"
| "extractLoop grid ((coord, voxel) # rest) visited parallelepipeds =
     (if \<not> solid voxel \<or> coord \<in> visited then extractLoop grid rest visited parallelepipeds
      else (case expandAll grid signedDirections (insert coord visited)
                   \<lparr>bmin = coord, bmax = coord\<rparr> of
              None \<Rightarrow> None
            | Some (visited', bbox) \<Rightarrow>
                extractLoop grid rest visited' (parallelepipeds @ [bbox])))"

definition extractPrimitives :: "VoxelGrid \<Rightarrow> BoundingBox list option" where
  "extractPrimitives grid = extractLoop grid grid {} []"

section \<open>Random sequencer\<close>

text \<open>
  Modelled from the spec: the random sequencer \<^verbatim>\<open>Rng\<close> and the helpers \<^verbatim>\<open>randRange\<close>,
  \<^verbatim>\<open>frand\<close> and \<^verbatim>\<open>std::shuffle\<close> are declared in headers that are not among the sources modelled here. The state of
  the sequencer is the sequence of raw values it has yet to produce: \<open>nextRaw\<close> reads the
  first of them and \<open>advance\<close> drops it. \<open>randRange low high\<close>
  draws from the half-open range from \<open>low\<close> up to, not including, \<open>high\<close> (the spec
  gives the length drawn by \<^verbatim>\<open>randRange(8, 30, rng)\<close> as lying in [8,30), and the wall
  count in [0, maxWalls] is drawn with \<^verbatim>\<open>maxNumWalls + 1\<close>); every value of the range is
  the result for some raw value. A call with an empty range has no defined result and is
  an error of the model. \<open>frand\<close> draws a number in [0,1); floating-point numbers are
  idealised as reals.
\<close>

type_synonym Rng = "nat \<Rightarrow> nat"

definition nextRaw :: "Rng \<Rightarrow> nat" where
  "nextRaw rng = rng 0"

definition advance :: "Rng \<Rightarrow> Rng" where
  "advance rng = (\<lambda>i. rng (Suc i))"

text \<open>The sequencer that produces the given raw values and zeros after them.\<close>

definition tapeOf :: "nat list \<Rightarrow> Rng" where
  "tapeOf raws = (\<lambda>i. if i < length raws then raws ! i else 0)"

datatype error = AssertionFailed | EmptyRange | OutOfRange

definition randRange :: "int \<Rightarrow> int \<Rightarrow> Rng \<Rightarrow> error + (int \<times> Rng)" where
  "randRange low high rng =
     (if low < high then Inr (low + int (nextRaw rng mod nat (high - low)), advance rng)
      else Inl EmptyRange)"

definition frand :: "Rng \<Rightarrow> real \<times> Rng" where
  "frand rng = (real (nextRaw rng mod 16777216) / 16777216, advance rng)"

text \<open>Sequencing of steps that can fail: the first error ends the computation.\<close>

definition bindE :: "error + 'a \<Rightarrow> ('a \<Rightarrow> error + 'b) \<Rightarrow> error + 'b" where
  "bindE m f = (case m of Inl e \<Rightarrow> Inl e | Inr a \<Rightarrow> f a)"

text \<open>
  Modelled from the spec: \<^verbatim>\<open>std::shuffle\<close> permutes the list with draws from the
  sequencer. Position \<open>i\<close>, from the last down to the second, is exchanged with a position
  drawn from \<open>0\<close> to \<open>i\<close>.
\<close>

fun shuffleFrom :: "nat \<Rightarrow> 'a list \<Rightarrow> Rng \<Rightarrow> 'a list \<times> Rng" where
  "shuffleFrom 0 xs rng = (xs, rng)"
| "shuffleFrom (Suc i) xs rng =
     (let j = nextRaw rng mod (Suc (Suc i))
      in shuffleFrom i (xs[Suc i := xs ! j, j := xs ! Suc i]) (advance rng))"

definition shuffle :: "'a list \<Rightarrow> Rng \<Rightarrow> 'a list \<times> Rng" where
  "shuffle xs rng = shuffleFrom (length xs - 1) xs rng"

lemma bindE_cong [fundef_cong]:
  "m = m' \<Longrightarrow> (\<And>a. m' = Inr a \<Longrightarrow> f a = f' a) \<Longrightarrow> bindE m f = bindE m' f'"
  by (auto simp: bindE_def split: sum.splits)


section \<open>The Basic generator\<close>

text \<open>
  The fields of \<^verbatim>\<open>GridLayoutImpl\<close>; \<open>length'\<close> is the field \<^verbatim>\<open>length\<close> (x), \<open>height\<close>
  is y and \<open>width\<close> is z. The sequencer, which the class holds by reference, is passed
  to every method that draws from it and returned.
\<close>

record GridLayoutImpl =
  numAgents :: int
  length' :: int
  height :: int
  width :: int

definition init_GridLayoutImpl ::
  "'a GridLayoutImpl_scheme \<Rightarrow> Rng \<Rightarrow> error + ('a GridLayoutImpl_scheme \<times> Rng)" where
  "init_GridLayoutImpl gen rng =
     bindE (randRange 8 30 rng) (\<lambda>(l, rng).
     bindE (randRange 7 25 rng) (\<lambda>(w, rng).
     Inr (gen\<lparr>length' := l, width := w\<rparr>, rng)))"

definition init_Basic ::
  "'a GridLayoutImpl_scheme \<Rightarrow> Rng \<Rightarrow> error + ('a GridLayoutImpl_scheme \<times> Rng)" where
  "init_Basic gen rng =
     bindE (init_GridLayoutImpl gen rng) (\<lambda>(gen, rng).
     bindE (randRange 3 5 rng) (\<lambda>(h, rng).
     Inr (gen\<lparr>height := h\<rparr>, rng)))"

text \<open>
  A loop \<^verbatim>\<open>for (i = i0; i < n; i += stride)\<close>. With a stride that is not positive the loop
  does not end, which is the value \<open>None\<close>.
\<close>

partial_function (option) forStride ::
  "int \<Rightarrow> int \<Rightarrow> int \<Rightarrow> (int \<Rightarrow> VoxelGrid \<Rightarrow> VoxelGrid) \<Rightarrow> VoxelGrid \<Rightarrow> VoxelGrid option" where
  "forStride i n stride body grid =
     (if i < n then forStride (i + stride) n stride body (body i grid) else Some grid)"

declare forStride.simps [code]

text \<open>A loop over a list of indices whose body may fail to return.\<close>

fun foldOpt :: "('a \<Rightarrow> 's \<Rightarrow> 's option) \<Rightarrow> 'a list \<Rightarrow> 's \<Rightarrow> 's option" where
  "foldOpt f [] s = Some s"
| "foldOpt f (x # xs) s = (case f x s of None \<Rightarrow> None | Some s' \<Rightarrow> foldOpt f xs s')"

text \<open>
  \<^verbatim>\<open>LayoutGeneratorBasic::generate\<close>: the floor, the two wall slabs at the ends of the x
  axis, and the two wall slabs at the ends of the z axis.
\<close>

definition generate_Basic :: "'a GridLayoutImpl_scheme \<Rightarrow> VoxelGrid \<Rightarrow> VoxelGrid option" where
  "generate_Basic gen grid =
     (let grid1 =
            fold (\<lambda>x. fold (\<lambda>z g. grid_set g (VoxelCoords x 0 z) solidVoxel) [0..width gen - 1])
              [0..length' gen - 1] grid
      in case forStride 0 (length' gen) (length' gen - 1)
                (\<lambda>x. fold (\<lambda>y. fold (\<lambda>z g. grid_set g (VoxelCoords x y z) solidVoxel)
                                  [0..width gen - 1])
                        [0..height gen - 1])
                grid1 of
           None \<Rightarrow> None
         | Some grid2 \<Rightarrow>
             foldOpt (\<lambda>x. foldOpt (\<lambda>y. forStride 0 (width gen) (width gen - 1)
                                         (\<lambda>z g. grid_set g (VoxelCoords x y z) solidVoxel))
                             [0..height gen - 1])
               [0..length' gen - 1] grid2)"

text \<open>
  \<^verbatim>\<open>LayoutGeneratorBasic::levelExit\<close>. The assertion \<^verbatim>\<open>assert(width - 2 >= exitPadWidth)\<close>
  ends the run when it fails.
\<close>

definition levelExit_Basic ::
  "'a GridLayoutImpl_scheme \<Rightarrow> VoxelGrid \<Rightarrow> Rng \<Rightarrow> error + (BoundingBox \<times> Rng)" where
  "levelExit_Basic gen grid rng =
     (let exitPadWidth = min 3 (numAgents gen)
      in if \<not> (width gen - 2 \<ge> exitPadWidth) then Inl AssertionFailed
         else
           bindE (randRange (length' gen - 2) (length' gen - 1) rng) (\<lambda>(xCoord, rng).
           bindE (randRange 1 (width gen - numAgents gen) rng) (\<lambda>(zCoord, rng).
           Inr (\<lparr>bmin = VoxelCoords xCoord 1 zCoord,
                 bmax = VoxelCoords (xCoord + 1) 2 (zCoord + exitPadWidth)\<rparr>, rng))))"

definition buildingZone_Basic :: "'a GridLayoutImpl_scheme \<Rightarrow> VoxelGrid \<Rightarrow> BoundingBox" where
  "buildingZone_Basic gen grid = \<lparr>bmin = VoxelCoords 0 0 0, bmax = VoxelCoords 0 0 0\<rparr>"

text \<open>
  \<^verbatim>\<open>LayoutGeneratorBasic::startingPositions\<close>: for each agent up to ten attempts to draw
  an interior cell that no earlier agent holds; the first argument of \<open>placeAgent\<close> counts
  the attempts that are left.
\<close>

fun placeAgent ::
  "'a GridLayoutImpl_scheme \<Rightarrow> nat \<Rightarrow> VoxelCoords list \<Rightarrow> Rng \<Rightarrow>
   error + (VoxelCoords list \<times> Rng)" where
  "placeAgent gen 0 agentPositions rng = Inr (agentPositions, rng)"
| "placeAgent gen (Suc attemptsLeft) agentPositions rng =
     bindE (randRange 1 (length' gen - 1) rng) (\<lambda>(x, rng).
     bindE (randRange 1 (width gen - 1) rng) (\<lambda>(z, rng).
       if VoxelCoords x 1 z \<notin> set agentPositions
       then Inr (agentPositions @ [VoxelCoords x 1 z], rng)
       else placeAgent gen attemptsLeft agentPositions rng))"

fun placeAgents ::
  "'a GridLayoutImpl_scheme \<Rightarrow> nat \<Rightarrow> VoxelCoords list \<Rightarrow> Rng \<Rightarrow>
   error + (VoxelCoords list \<times> Rng)" where
  "placeAgents gen 0 agentPositions rng = Inr (agentPositions, rng)"
| "placeAgents gen (Suc agentsLeft) agentPositions rng =
     bindE (placeAgent gen 10 agentPositions rng) (\<lambda>(agentPositions, rng).
     placeAgents gen agentsLeft agentPositions rng)"

definition startingPositions_Basic ::
  "'a GridLayoutImpl_scheme \<Rightarrow> VoxelGrid \<Rightarrow> Rng \<Rightarrow> error + (VoxelCoords list \<times> Rng)" where
  "startingPositions_Basic gen grid rng = placeAgents gen (nat (numAgents gen)) [] rng"

definition objectSpawnPositions_Basic ::
  "'a GridLayoutImpl_scheme \<Rightarrow> VoxelGrid \<Rightarrow> VoxelCoords list" where
  "objectSpawnPositions_Basic gen grid = []"


section \<open>The Walls generator\<close>

record LayoutGeneratorWalls = GridLayoutImpl +
  maxWallHeight :: int
  maxWallX :: int
  firstWallX :: int
  tallestWall :: int
  maxNumWalls :: int
  walls :: "(int \<times> int) list"
  agentSpawnCoords :: "VoxelCoords list"
  objectSpawnCoords :: "VoxelCoords list"

text \<open>The generator as its constructor and its member initialisers leave it.\<close>

definition newWalls :: "int \<Rightarrow> LayoutGeneratorWalls" where
  "newWalls n =
     \<lparr>numAgents = n, length' = 0, height = 0, width = 0,
      maxWallHeight = 0, maxWallX = 0, firstWallX = 3, tallestWall = 4, maxNumWalls = 4,
      walls = [], agentSpawnCoords = [], objectSpawnCoords = []\<rparr>"

text \<open>
  The range constructor \<^verbatim>\<open>std::vector(v.begin() + fromIdx, v.begin() + toIdx)\<close>: a range
  that leaves the vector is a read out of range.
\<close>

definition slice :: "'a list \<Rightarrow> int \<Rightarrow> int \<Rightarrow> error + 'a list" where
  "slice v fromIdx toIdx =
     (if 0 \<le> fromIdx \<and> fromIdx \<le> toIdx \<and> toIdx \<le> int (length v)
      then Inr (take (nat (toIdx - fromIdx)) (drop (nat fromIdx) v))
      else Inl OutOfRange)"

text \<open>
  The loop \<^verbatim>\<open>for (int i = 1; i < numWalls; ++i)\<close> over the walls after the first, given
  the indices that are left. The third component of the result is the log: the index of
  the wall for which the warning "Could not generate wall i not enough space!" was
  written, if any.
\<close>

fun placeNextWalls ::
  "int \<Rightarrow> int list \<Rightarrow> int \<Rightarrow> LayoutGeneratorWalls \<Rightarrow> Rng \<Rightarrow>
   error + (LayoutGeneratorWalls \<times> Rng \<times> int list)" where
  "placeNextWalls numWalls [] prevWallX gen rng = Inr (gen, rng, [])"
| "placeNextWalls numWalls (i # is) prevWallX gen rng =
     bindE (randRange 1 (tallestWall gen + 1) rng) (\<lambda>(wallHeight, rng).
       let remainingSpace = 3 + (numWalls - i - 1) * 2
       in if prevWallX + 1 \<ge> length' gen - remainingSpace then Inr (gen, rng, [i])
          else
            bindE (randRange (prevWallX + 1) (length' gen - remainingSpace) rng) (\<lambda>(wallX, rng).
            placeNextWalls numWalls is wallX
              (gen\<lparr>walls := walls gen @ [(wallX, wallHeight)],
                   maxWallHeight := max (maxWallHeight gen) wallHeight,
                   maxWallX := max (maxWallX gen) wallX\<rparr>) rng))"

text \<open>
  The first part of \<^verbatim>\<open>LayoutGeneratorWalls::init\<close>, after the call of the Basic
  \<^verbatim>\<open>init\<close>: the wall count, the length and the walls. The result also carries the wall
  count that was drawn and the log.
\<close>

definition placeWalls ::
  "LayoutGeneratorWalls \<Rightarrow> Rng \<Rightarrow> error + (LayoutGeneratorWalls \<times> Rng \<times> int \<times> int list)" where
  "placeWalls gen rng =
     bindE (randRange 0 (maxNumWalls gen + 1) rng) (\<lambda>(numWalls, rng).
     let minLength = numWalls * 2 + 4 + 3
     in bindE (randRange minLength 35 rng) (\<lambda>(l, rng).
        let gen = gen\<lparr>length' := l\<rparr>
        in if numWalls \<le> 0 then Inr (gen, rng, numWalls, [])
           else
             bindE (randRange 4 (4 + 1 + length' gen - minLength) rng) (\<lambda>(fwx, rng).
             bindE (randRange 1 (tallestWall gen + 1) rng) (\<lambda>(firstWallHeight, rng).
             bindE (placeNextWalls numWalls [1..numWalls - 1] fwx
                      (gen\<lparr>firstWallX := fwx, maxWallX := fwx, maxWallHeight := firstWallHeight,
                           walls := walls gen @ [(fwx, firstWallHeight)]\<rparr>) rng)
               (\<lambda>(gen, rng, warned). Inr (gen, rng, numWalls, warned))))))"

definition spawnCandidates_Walls :: "LayoutGeneratorWalls \<Rightarrow> VoxelCoords list" where
  "spawnCandidates_Walls gen =
     concat (map (\<lambda>x. map (\<lambda>z. VoxelCoords x 1 z) [1..width gen - 2]) [1..firstWallX gen - 1])"

text \<open>The second part of \<^verbatim>\<open>init\<close>: the height and the spawn positions.\<close>

definition placeSpawns_Walls ::
  "LayoutGeneratorWalls \<Rightarrow> Rng \<Rightarrow> error + (LayoutGeneratorWalls \<times> Rng)" where
  "placeSpawns_Walls gen rng =
     bindE (randRange 3 5 rng) (\<lambda>(h, rng).
     let gen = gen\<lparr>height := h + maxWallHeight gen\<rparr>;
         (spawnCandidates, rng) = shuffle (spawnCandidates_Walls gen) rng;
         spawnIdx = 0
     in bindE (slice spawnCandidates 0 (numAgents gen)) (\<lambda>agents.
        let spawnIdx = spawnIdx + numAgents gen;
            minNumObjects = fold (\<lambda>wall m. m + (snd wall - 1) * 2) (walls gen) 0
        in bindE (randRange minNumObjects (minNumObjects + 4) rng) (\<lambda>(numObjects, rng).
           let numObjects = min numObjects (int (length spawnCandidates) - spawnIdx)
           in bindE (slice spawnCandidates spawnIdx (spawnIdx + numObjects)) (\<lambda>objects.
              Inr (gen\<lparr>agentSpawnCoords := agents, objectSpawnCoords := objects\<rparr>, rng)))))"

text \<open>
  \<^verbatim>\<open>LayoutGeneratorWalls::init\<close>. Beside the generator and the sequencer the result
  carries the wall count that was drawn and the log.
\<close>

definition init_Walls ::
  "LayoutGeneratorWalls \<Rightarrow> Rng \<Rightarrow> error + (LayoutGeneratorWalls \<times> Rng \<times> int \<times> int list)" where
  "init_Walls gen rng =
     bindE (init_Basic gen rng) (\<lambda>(gen, rng).
     bindE (placeWalls gen rng) (\<lambda>(gen, rng, numWalls, warned).
     bindE (placeSpawns_Walls gen rng) (\<lambda>(gen, rng).
     Inr (gen, rng, numWalls, warned))))"

definition generate_Walls :: "LayoutGeneratorWalls \<Rightarrow> VoxelGrid \<Rightarrow> VoxelGrid option" where
  "generate_Walls gen grid =
     (case generate_Basic gen grid of
        None \<Rightarrow> None
      | Some grid \<Rightarrow>
          Some (fold (\<lambda>wall. fold (\<lambda>y. fold (\<lambda>z g. grid_set g (VoxelCoords (fst wall) y z) solidVoxel)
                                           [1..width gen - 2])
                                [1..1 + snd wall - 1])
                  (walls gen) grid))"

definition startingPositions_Walls :: "LayoutGeneratorWalls \<Rightarrow> VoxelGrid \<Rightarrow> VoxelCoords list" where
  "startingPositions_Walls gen grid = agentSpawnCoords gen"

definition objectSpawnPositions_Walls :: "LayoutGeneratorWalls \<Rightarrow> VoxelGrid \<Rightarrow> VoxelCoords list" where
  "objectSpawnPositions_Walls gen grid = objectSpawnCoords gen"

definition levelExit_Walls ::
  "LayoutGeneratorWalls \<Rightarrow> VoxelGrid \<Rightarrow> Rng \<Rightarrow> error + (BoundingBox \<times> Rng)" where
  "levelExit_Walls gen grid rng =
     (let exitPadWidth = min 3 (numAgents gen)
      in if \<not> (width gen - 2 \<ge> exitPadWidth) then Inl AssertionFailed
         else
           bindE (randRange (maxWallX gen + 1) (length' gen - 1) rng) (\<lambda>(exitX, rng).
           bindE (randRange 1 (width gen - 1 - exitPadWidth) rng) (\<lambda>(exitZ, rng).
           Inr (\<lparr>bmin = VoxelCoords exitX 1 exitZ,
                 bmax = VoxelCoords (exitX + 1) 2 (exitZ + exitPadWidth)\<rparr>, rng))))"


section \<open>The Cave generator\<close>

record LayoutGeneratorCave = GridLayoutImpl +
  caveHeight :: int
  freeVoxels :: "VoxelCoords list"

definition newCave :: "int \<Rightarrow> LayoutGeneratorCave" where
  "newCave n = \<lparr>numAgents = n, length' = 0, height = 0, width = 0, caveHeight = 0, freeVoxels = []\<rparr>"

definition init_Cave :: "LayoutGeneratorCave \<Rightarrow> Rng \<Rightarrow> error + (LayoutGeneratorCave \<times> Rng)" where
  "init_Cave gen rng =
     bindE (init_Basic gen rng) (\<lambda>(gen, rng).
     bindE (randRange 2 5 rng) (\<lambda>(ch, rng).
     bindE (randRange 3 5 rng) (\<lambda>(h, rng).
     Inr (gen\<lparr>caveHeight := ch, height := h + ch\<rparr>, rng))))"

text \<open>
  \<^verbatim>\<open>getFreeVoxels\<close>: the innermost loop runs y from \<open>startY\<close> down to 1 and stops at the
  first y whose voxel below is solid.
\<close>

fun firstStandable :: "VoxelGrid \<Rightarrow> int \<Rightarrow> int \<Rightarrow> int list \<Rightarrow> VoxelCoords list" where
  "firstStandable grid x z [] = []"
| "firstStandable grid x z (y # ys) =
     (if isSolid grid (VoxelCoords x (y - 1) z) then [VoxelCoords x y z]
      else firstStandable grid x z ys)"

definition getFreeVoxels :: "VoxelGrid \<Rightarrow> int \<Rightarrow> int \<Rightarrow> int \<Rightarrow> VoxelCoords list" where
  "getFreeVoxels grid len wid startY =
     concat (map (\<lambda>x. concat (map (\<lambda>z. firstStandable grid x z (rev [1..startY]))
                                  [1..wid - 2]))
               [1..len - 2])"

text \<open>
  The cave set (\<^verbatim>\<open>std::unordered_set\<close>) is a list without repetitions, in the order in
  which it is later traversed; \<open>emplace\<close> leaves the set as it is when the element is there.
\<close>

definition emplace :: "VoxelCoords \<Rightarrow> VoxelCoords list \<Rightarrow> VoxelCoords list" where
  "emplace c cave = (if c \<in> set cave then cave else cave @ [c])"

text \<open>The loop that places the seed cells, given the number of seeds that are left.\<close>

fun placeSeeds ::
  "LayoutGeneratorCave \<Rightarrow> nat \<Rightarrow> VoxelCoords list \<Rightarrow> VoxelCoords list \<Rightarrow> Rng \<Rightarrow>
   error + (VoxelCoords list \<times> VoxelCoords list \<times> Rng)" where
  "placeSeeds gen 0 q cave rng = Inr (q, cave, rng)"
| "placeSeeds gen (Suc seedsLeft) q cave rng =
     bindE (randRange 2 (length' gen - 2) rng) (\<lambda>(seedX, rng).
     bindE (randRange 2 (width gen - 2) rng) (\<lambda>(seedZ, rng).
     placeSeeds gen seedsLeft (q @ [VoxelCoords seedX (caveHeight gen) seedZ])
       (emplace (VoxelCoords seedX (caveHeight gen) seedZ) cave) rng))"

text \<open>
  One round of the two inner loops of the flood fill: the neighbour of \<open>current\<close> in direction
  \<open>d\<close> is accepted with probability \<open>growthProb\<close> when it is new and within the bounds, and
  each acceptance multiplies \<open>growthProb\<close> by 0.995.
\<close>

definition tryNeighbour ::
  "LayoutGeneratorCave \<Rightarrow> VoxelCoords \<Rightarrow> VoxelCoords \<Rightarrow>
   VoxelCoords list \<times> VoxelCoords list \<times> real \<times> Rng \<Rightarrow>
   VoxelCoords list \<times> VoxelCoords list \<times> real \<times> Rng" where
  "tryNeighbour gen current d st =
     (case st of (q, cave, growthProb, rng) \<Rightarrow>
        let newCoords = VoxelCoords (vx current + vx d) (vy current + vy d) (vz current + vz d);
            (p, rng) = frand rng
        in if p > growthProb then (q, cave, growthProb, rng)
           else if newCoords \<in> set cave then (q, cave, growthProb, rng)
           else if vy newCoords > caveHeight gen \<or> vy newCoords < 1 then (q, cave, growthProb, rng)
           else if vx newCoords \<ge> length' gen - 2 \<or> vx newCoords < 2 then (q, cave, growthProb, rng)
           else if vz newCoords > width gen - 1 \<or> vz newCoords < 1 then (q, cave, growthProb, rng)
           else (q @ [newCoords], emplace newCoords cave, growthProb * 0.995, rng))"

text \<open>The cells within the bounds of the flood fill.\<close>

definition caveBox :: "LayoutGeneratorCave \<Rightarrow> VoxelCoords set" where
  "caveBox gen =
     {c. 1 \<le> vy c \<and> vy c \<le> caveHeight gen \<and> 2 \<le> vx c \<and> vx c < length' gen - 2 \<and>
         1 \<le> vz c \<and> vz c \<le> width gen - 1}"

lemma finite_caveBox: "finite (caveBox gen)"
proof (rule finite_subset)
  show "caveBox gen \<subseteq> (\<lambda>(x, y, z). VoxelCoords x y z) `
          ({2..length' gen} \<times> {1..caveHeight gen} \<times> {1..width gen})"
  proof
    fix c assume "c \<in> caveBox gen"
    then have "(vx c, vy c, vz c) \<in> {2..length' gen} \<times> {1..caveHeight gen} \<times> {1..width gen}"
      by (simp add: caveBox_def)
    moreover have "c = (\<lambda>(x, y, z). VoxelCoords x y z) (vx c, vy c, vz c)" by simp
    ultimately show "c \<in> (\<lambda>(x, y, z). VoxelCoords x y z) `
          ({2..length' gen} \<times> {1..caveHeight gen} \<times> {1..width gen})"
      by (rule rev_image_eqI)
  qed
qed simp

text \<open>What a round of the inner loops does to the queue, the cave set and the probability.\<close>

lemma tryNeighbour_step:
  "tryNeighbour gen current d (q, cave, gp, rng) = (q, cave, gp, snd (frand rng)) \<or>
   (\<exists>c. c \<in> caveBox gen \<and> c \<notin> set cave \<and>
        tryNeighbour gen current d (q, cave, gp, rng) = (q @ [c], cave @ [c], gp * 0.995, snd (frand rng)))"
  by (auto simp: tryNeighbour_def Let_def emplace_def caveBox_def split: prod.splits)

lemma tryNeighbours_steps:
  "\<exists>new rng'. fold (tryNeighbour gen current) ds (q, cave, gp, rng) =
       (q @ new, cave @ new, gp * 0.995 ^ length new, rng') \<and>
     set new \<subseteq> caveBox gen \<and> set new \<inter> set cave = {} \<and> distinct new"
proof (induction ds arbitrary: q cave gp rng)
  case Nil
  show ?case by (intro exI[of _ "[]"] exI[of _ rng]) simp
next
  case (Cons d ds)
  from tryNeighbour_step[of gen current d q cave gp rng] show ?case
  proof
    assume s: "tryNeighbour gen current d (q, cave, gp, rng) = (q, cave, gp, snd (frand rng))"
    from Cons.IH[of q cave gp "snd (frand rng)"] show ?thesis by (simp add: s)
  next
    assume "\<exists>c. c \<in> caveBox gen \<and> c \<notin> set cave \<and>
        tryNeighbour gen current d (q, cave, gp, rng) = (q @ [c], cave @ [c], gp * 0.995, snd (frand rng))"
    then obtain c where c: "c \<in> caveBox gen" "c \<notin> set cave"
      and s: "tryNeighbour gen current d (q, cave, gp, rng) = (q @ [c], cave @ [c], gp * 0.995, snd (frand rng))"
      by blast
    from Cons.IH[of "q @ [c]" "cave @ [c]" "gp * 0.995" "snd (frand rng)"] obtain new rng' where
      n: "fold (tryNeighbour gen current) ds (q @ [c], cave @ [c], gp * 0.995, snd (frand rng)) =
            ((q @ [c]) @ new, (cave @ [c]) @ new, gp * 0.995 * 0.995 ^ length new, rng')"
        "set new \<subseteq> caveBox gen" "set new \<inter> set (cave @ [c]) = {}" "distinct new"
      by blast
    show ?thesis
      using n c by (intro exI[of _ "c # new"] exI[of _ rng']) (auto simp: s)
  qed
qed

text \<open>
  The loop \<^verbatim>\<open>while (!q.empty())\<close> of the flood fill. It ends because every round either
  shortens the queue or adds a cell of the bounded box to the cave set.
\<close>

function growCave ::
  "LayoutGeneratorCave \<Rightarrow> VoxelCoords list \<Rightarrow> VoxelCoords list \<Rightarrow> real \<Rightarrow> Rng \<Rightarrow>
   VoxelCoords list \<times> real \<times> Rng" where
  "growCave gen [] cave growthProb rng = (cave, growthProb, rng)"
| "growCave gen (current # q) cave growthProb rng =
     (case fold (tryNeighbour gen current) signedDirections (q, cave, growthProb, rng) of
        (q', cave', growthProb', rng') \<Rightarrow> growCave gen q' cave' growthProb' rng')"
  by pat_completeness auto
termination
proof (relation "(\<lambda>(gen, q, cave, gp, rng). card (caveBox gen - set cave)) <*mlex*>
                 measure (\<lambda>(gen, q, cave, gp, rng). length q)")
  show "wf ((\<lambda>(gen, q, cave, gp, rng). card (caveBox gen - set cave)) <*mlex*>
                 measure (\<lambda>(gen, q, cave, gp, rng). length q))"
    by (simp add: wf_mlex)
next
  fix gen :: LayoutGeneratorCave and current q cave and growthProb :: real and rng :: Rng
    and q' y cave' z and growthProb' :: real and rng' :: Rng
  assume a: "(q', y) = fold (tryNeighbour gen current) signedDirections (q, cave, growthProb, rng)"
    "(cave', z) = y" "(growthProb', rng') = z"
  from tryNeighbours_steps[of gen current signedDirections q cave growthProb rng] obtain new r where
    n: "fold (tryNeighbour gen current) signedDirections (q, cave, growthProb, rng) =
          (q @ new, cave @ new, growthProb * 0.995 ^ length new, r)"
      "set new \<subseteq> caveBox gen" "set new \<inter> set cave = {}"
    by blast
  have q': "q' = q @ new" and cave': "cave' = cave @ new"
    using a n(1) by (metis prod.inject)+
  show "((gen, q', cave', growthProb', rng'), (gen, current # q, cave, growthProb, rng))
        \<in> (\<lambda>(gen, q, cave, gp, rng). card (caveBox gen - set cave)) <*mlex*>
                 measure (\<lambda>(gen, q, cave, gp, rng). length q)"
  proof (cases new)
    case Nil
    then show ?thesis using q' cave' by (simp add: mlex_iff)
  next
    case (Cons c cs)
    have "caveBox gen - set cave' \<subset> caveBox gen - set cave"
      using n(2,3) Cons cave' by auto
    then have "card (caveBox gen - set cave') < card (caveBox gen - set cave)"
      by (intro psubset_card_mono) (simp_all add: finite_caveBox)
    then show ?thesis by (simp add: mlex_iff)
  qed
qed

text \<open>The flood fill: the seeds, then the growth from an initial probability of 0.8.\<close>

definition numSeeds :: "LayoutGeneratorCave \<Rightarrow> int" where
  "numSeeds gen = max 1 (max (length' gen) (width gen) sdiv 7 + 1)"

definition floodFill ::
  "LayoutGeneratorCave \<Rightarrow> Rng \<Rightarrow> error + (VoxelCoords list \<times> real \<times> Rng)" where
  "floodFill gen rng =
     bindE (placeSeeds gen (nat (numSeeds gen)) [] [] rng) (\<lambda>(q, cave, rng).
     Inr (growCave gen q cave 0.8 rng))"

text \<open>The ceiling plane at \<open>caveHeight\<close>, open where the cave is.\<close>

definition topSurface :: "LayoutGeneratorCave \<Rightarrow> VoxelCoords list \<Rightarrow> VoxelGrid \<Rightarrow> VoxelGrid" where
  "topSurface gen cave grid =
     fold (\<lambda>x. fold (\<lambda>z g. if VoxelCoords x (caveHeight gen) z \<in> set cave then g
                            else grid_set g (VoxelCoords x (caveHeight gen) z) solidVoxel)
                  [1..width gen - 1])
       [1..length' gen - 1] grid"

text \<open>The walls of the cave: the neighbours of cave cells that are not cave cells.\<close>

definition caveWalls :: "LayoutGeneratorCave \<Rightarrow> VoxelCoords list \<Rightarrow> VoxelGrid \<Rightarrow> VoxelGrid" where
  "caveWalls gen cave grid =
     fold (\<lambda>coord. fold (\<lambda>d g.
             let adjacent = VoxelCoords (vx coord + vx d) (vy coord + vy d) (vz coord + vz d)
             in if vy adjacent > caveHeight gen then g
                else if adjacent \<in> set cave then g
                else grid_set g adjacent solidVoxel)
           signedDirections)
       cave grid"

text \<open>
  \<^verbatim>\<open>LayoutGeneratorCave::generate\<close>. The outer \<open>None\<close> is a run of the Basic generator
  that does not end.
\<close>

definition generate_Cave ::
  "LayoutGeneratorCave \<Rightarrow> VoxelGrid \<Rightarrow> Rng \<Rightarrow>
   (error + (LayoutGeneratorCave \<times> VoxelGrid \<times> Rng)) option" where
  "generate_Cave gen grid rng =
     (case generate_Basic gen grid of
        None \<Rightarrow> None
      | Some grid \<Rightarrow>
          Some (bindE (floodFill gen rng) (\<lambda>(cave, growthProb, rng).
            let grid = caveWalls gen cave (topSurface gen cave grid);
                (fv, rng) = shuffle (getFreeVoxels grid (length' gen) (width gen) (caveHeight gen + 1)) rng
            in Inr (gen\<lparr>freeVoxels := fv\<rparr>, grid, rng))))"

definition startingPositions_Cave ::
  "LayoutGeneratorCave \<Rightarrow> VoxelGrid \<Rightarrow> error + VoxelCoords list" where
  "startingPositions_Cave gen grid = slice (freeVoxels gen) 0 (numAgents gen)"

text \<open>
  \<^verbatim>\<open>LayoutGeneratorCave::levelExit\<close>. \<open>padFits\<close> is the inner loop over the cells of the
  pad; \<open>scanExit\<close> is the loop over the free voxels from the last one down, given the
  number of entries that are left to try.
\<close>

definition padFits :: "VoxelGrid \<Rightarrow> int \<Rightarrow> VoxelCoords \<Rightarrow> bool" where
  "padFits grid exitPadWidth v =
     list_all (\<lambda>z. \<not> isSolid grid (VoxelCoords (vx v) (vy v) z)) [vz v..vz v + exitPadWidth - 1]"

fun scanExit :: "VoxelGrid \<Rightarrow> int \<Rightarrow> VoxelCoords list \<Rightarrow> nat \<Rightarrow> BoundingBox" where
  "scanExit grid exitPadWidth fv 0 = \<lparr>bmin = VoxelCoords 1 1 1, bmax = VoxelCoords 2 2 2\<rparr>"
| "scanExit grid exitPadWidth fv (Suc i) =
     (if padFits grid exitPadWidth (fv ! i)
      then \<lparr>bmin = fv ! i,
            bmax = VoxelCoords (vx (fv ! i) + 1) (vy (fv ! i) + 1) (vz (fv ! i) + exitPadWidth)\<rparr>
      else scanExit grid exitPadWidth fv i)"

definition levelExit_Cave :: "LayoutGeneratorCave \<Rightarrow> VoxelGrid \<Rightarrow> error + BoundingBox" where
  "levelExit_Cave gen grid =
     (let exitPadWidth = min 3 (numAgents gen)
      in if \<not> (width gen - 2 \<ge> exitPadWidth) then Inl AssertionFailed
         else Inr (scanExit grid exitPadWidth (freeVoxels gen) (length (freeVoxels gen))))"


section \<open>The Tower generator\<close>

text \<open>
  The fields \<^verbatim>\<open>agentSpawnCoords\<close> and \<^verbatim>\<open>objectSpawnCoords\<close> of the Tower generator are
  \<open>towerAgentSpawnCoords\<close> and \<open>towerObjectSpawnCoords\<close>, apart from those of the Walls
  generator.
\<close>

record LayoutGeneratorTower = GridLayoutImpl +
  towerAgentSpawnCoords :: "VoxelCoords list"
  towerObjectSpawnCoords :: "VoxelCoords list"
  buildZoneLength :: int
  buildZoneWidth :: int
  materialsLength :: int
  materialsWidth :: int
  buildZoneXOffset :: int
  buildZoneZOffset :: int
  materialsXOffset :: int
  materialsZOffset :: int

definition newTower :: "int \<Rightarrow> LayoutGeneratorTower" where
  "newTower n =
     \<lparr>numAgents = n, length' = 0, height = 0, width = 0,
      towerAgentSpawnCoords = [], towerObjectSpawnCoords = [],
      buildZoneLength = 0, buildZoneWidth = 0, materialsLength = 0, materialsWidth = 0,
      buildZoneXOffset = 0, buildZoneZOffset = 0, materialsXOffset = 0, materialsZOffset = 0\<rparr>"

text \<open>The first part of \<^verbatim>\<open>LayoutGeneratorTower::init\<close>: sizes and offsets.\<close>

definition drawSizes_Tower ::
  "LayoutGeneratorTower \<Rightarrow> Rng \<Rightarrow> error + (LayoutGeneratorTower \<times> Rng)" where
  "drawSizes_Tower gen rng =
     bindE (randRange 5 7 rng) (\<lambda>(h, rng).
     bindE (randRange 12 30 rng) (\<lambda>(l, rng).
     bindE (randRange 12 25 rng) (\<lambda>(w, rng).
     bindE (randRange 3 9 rng) (\<lambda>(bzl, rng).
     bindE (randRange 3 9 rng) (\<lambda>(bzw, rng).
     bindE (randRange 2 8 rng) (\<lambda>(ml, rng).
     bindE (randRange 2 8 rng) (\<lambda>(mw, rng).
     let l = max (bzl + ml + 3) l;
         w = max (bzw + mw + 3) w
     in bindE (randRange 1 (l - bzl - 1) rng) (\<lambda>(bzx, rng).
        bindE (randRange 1 (w - bzw - 1) rng) (\<lambda>(bzz, rng).
        bindE (randRange 1 (l - ml - 1) rng) (\<lambda>(mx, rng).
        bindE (randRange 1 (w - mw - 1) rng) (\<lambda>(mz, rng).
        Inr (gen\<lparr>height := h, length' := l, width := w,
                  buildZoneLength := bzl, buildZoneWidth := bzw,
                  materialsLength := ml, materialsWidth := mw,
                  buildZoneXOffset := bzx, buildZoneZOffset := bzz,
                  materialsXOffset := mx, materialsZOffset := mz\<rparr>, rng))))))))))))"

definition spawnCandidates_Tower :: "LayoutGeneratorTower \<Rightarrow> VoxelCoords list" where
  "spawnCandidates_Tower gen =
     concat (map (\<lambda>x. map (\<lambda>z. VoxelCoords x 2 z) [1..width gen - 2]) [1..length' gen - 2])"

text \<open>
  The loop \<^verbatim>\<open>while (int(agentSpawnCoords.size()) < numAgents)\<close> that repeats the first
  position; reading the first position of an empty vector is a read out of range.
\<close>

function padAgents :: "int \<Rightarrow> VoxelCoords list \<Rightarrow> error + VoxelCoords list" where
  "padAgents n agents =
     (if int (length agents) < n
      then (case agents of [] \<Rightarrow> Inl OutOfRange | c # _ \<Rightarrow> padAgents n (agents @ [c]))
      else Inr agents)"
  by pat_completeness auto
termination
  by (relation "measure (\<lambda>(n, agents). nat (n - int (length agents)))") auto

text \<open>An object stays at its height inside the materials footprint and drops by one elsewhere.\<close>

definition settleObject :: "LayoutGeneratorTower \<Rightarrow> VoxelCoords \<Rightarrow> VoxelCoords" where
  "settleObject gen c =
     (if vx c \<ge> materialsXOffset gen \<and> vx c < materialsXOffset gen + materialsLength gen \<and>
         vz c \<ge> materialsZOffset gen \<and> vz c < materialsZOffset gen + materialsWidth gen
      then c
      else VoxelCoords (vx c) (vy c - 1) (vz c))"

definition materialsBulk :: "LayoutGeneratorTower \<Rightarrow> VoxelCoords list" where
  "materialsBulk gen =
     concat (map (\<lambda>x. concat (map (\<lambda>y. map (\<lambda>z. VoxelCoords x y z)
               [materialsZOffset gen..materialsZOffset gen + materialsWidth gen - 1]) [1..1]))
       [materialsXOffset gen..materialsXOffset gen + materialsLength gen - 1])"

text \<open>The second part of \<^verbatim>\<open>init\<close>: the spawn positions of agents and objects.\<close>

definition placeSpawns_Tower ::
  "LayoutGeneratorTower \<Rightarrow> Rng \<Rightarrow> error + (LayoutGeneratorTower \<times> Rng)" where
  "placeSpawns_Tower gen rng =
     (let (spawnCandidates, rng) = shuffle (spawnCandidates_Tower gen) rng
      in bindE (slice spawnCandidates 0 (min (numAgents gen) (int (length spawnCandidates))))
           (\<lambda>agents.
         let spawnIdx = int (length agents);
             maxRandomObjects = min (int (length spawnCandidates) - numAgents gen) 25
         in bindE (randRange 0 (max 1 maxRandomObjects) rng) (\<lambda>(spawnObjects, rng).
            bindE (slice spawnCandidates spawnIdx (spawnIdx + spawnObjects)) (\<lambda>objects.
            bindE (padAgents (numAgents gen) agents) (\<lambda>agents.
            Inr (gen\<lparr>towerAgentSpawnCoords := agents,
                      towerObjectSpawnCoords := map (settleObject gen) objects @ materialsBulk gen\<rparr>,
                 rng))))))"

definition init_Tower ::
  "LayoutGeneratorTower \<Rightarrow> Rng \<Rightarrow> error + (LayoutGeneratorTower \<times> Rng)" where
  "init_Tower gen rng = bindE (drawSizes_Tower gen rng) (\<lambda>(gen, rng). placeSpawns_Tower gen rng)"

definition generate_Tower :: "LayoutGeneratorTower \<Rightarrow> VoxelGrid \<Rightarrow> VoxelGrid option" where
  "generate_Tower gen grid = generate_Basic gen grid"

definition startingPositions_Tower :: "LayoutGeneratorTower \<Rightarrow> VoxelGrid \<Rightarrow> VoxelCoords list" where
  "startingPositions_Tower gen grid = towerAgentSpawnCoords gen"

definition objectSpawnPositions_Tower :: "LayoutGeneratorTower \<Rightarrow> VoxelGrid \<Rightarrow> VoxelCoords list" where
  "objectSpawnPositions_Tower gen grid = towerObjectSpawnCoords gen"

definition levelExit_Tower :: "LayoutGeneratorTower \<Rightarrow> VoxelGrid \<Rightarrow> BoundingBox" where
  "levelExit_Tower gen grid = \<lparr>bmin = VoxelCoords 0 0 0, bmax = VoxelCoords 0 0 0\<rparr>"

definition buildingZone_Tower :: "LayoutGeneratorTower \<Rightarrow> VoxelGrid \<Rightarrow> BoundingBox" where
  "buildingZone_Tower gen grid =
     \<lparr>bmin = VoxelCoords (buildZoneXOffset gen) 1 (buildZoneZOffset gen),
      bmax = VoxelCoords (buildZoneXOffset gen + buildZoneLength gen) 1
               (buildZoneZOffset gen + buildZoneWidth gen)\<rparr>"


section \<open>The layout component\<close>

definition newBasic :: "int \<Rightarrow> GridLayoutImpl" where
  "newBasic n = \<lparr>numAgents = n, length' = 0, height = 0, width = 0\<rparr>"

text \<open>
  The archetypes that \<^verbatim>\<open>GridLayoutComponent::init\<close> supports, and the generator it holds:
  one of the four classes.
\<close>

datatype LayoutType = Empty | Walls | Cave | Towers

datatype Generator =
  BasicGen GridLayoutImpl
| WallsGen LayoutGeneratorWalls
| CaveGen LayoutGeneratorCave
| TowerGen LayoutGeneratorTower

text \<open>
  \<^verbatim>\<open>GridLayoutComponent::init\<close> constructs the generator of the archetype and calls its
  \<^verbatim>\<open>init\<close>.
\<close>

definition init_Component :: "int \<Rightarrow> LayoutType \<Rightarrow> Rng \<Rightarrow> error + (Generator \<times> Rng)" where
  "init_Component n layoutType rng =
     (case layoutType of
        Empty \<Rightarrow> bindE (init_Basic (newBasic n) rng) (\<lambda>(gen, rng). Inr (BasicGen gen, rng))
      | Walls \<Rightarrow>
          bindE (init_Walls (newWalls n) rng) (\<lambda>(gen, rng, numWalls, warned). Inr (WallsGen gen, rng))
      | Cave \<Rightarrow> bindE (init_Cave (newCave n) rng) (\<lambda>(gen, rng). Inr (CaveGen gen, rng))
      | Towers \<Rightarrow> bindE (init_Tower (newTower n) rng) (\<lambda>(gen, rng). Inr (TowerGen gen, rng)))"

text \<open>
  The delegating methods. \<open>None\<close> is a generation that does not end; the Cave generator
  draws from the sequencer and stores its free voxels while it generates.
\<close>

definition generate_Component ::
  "Generator \<Rightarrow> VoxelGrid \<Rightarrow> Rng \<Rightarrow> (error + (Generator \<times> VoxelGrid \<times> Rng)) option" where
  "generate_Component generator grid rng =
     (case generator of
        BasicGen gen \<Rightarrow>
          map_option (\<lambda>grid. Inr (BasicGen gen, grid, rng)) (generate_Basic gen grid)
      | WallsGen gen \<Rightarrow>
          map_option (\<lambda>grid. Inr (WallsGen gen, grid, rng)) (generate_Walls gen grid)
      | CaveGen gen \<Rightarrow>
          map_option (\<lambda>res. bindE res (\<lambda>(gen, grid, rng). Inr (CaveGen gen, grid, rng)))
            (generate_Cave gen grid rng)
      | TowerGen gen \<Rightarrow>
          map_option (\<lambda>grid. Inr (TowerGen gen, grid, rng)) (generate_Tower gen grid))"

definition extractPrimitives_Component :: "Generator \<Rightarrow> VoxelGrid \<Rightarrow> BoundingBox list option" where
  "extractPrimitives_Component generator grid = extractPrimitives grid"

definition levelExit_Component ::
  "Generator \<Rightarrow> VoxelGrid \<Rightarrow> Rng \<Rightarrow> error + (BoundingBox \<times> Rng)" where
  "levelExit_Component generator grid rng =
     (case generator of
        BasicGen gen \<Rightarrow> levelExit_Basic gen grid rng
      | WallsGen gen \<Rightarrow> levelExit_Walls gen grid rng
      | CaveGen gen \<Rightarrow> bindE (levelExit_Cave gen grid) (\<lambda>box. Inr (box, rng))
      | TowerGen gen \<Rightarrow> Inr (levelExit_Tower gen grid, rng))"

definition startingPositions_Component ::
  "Generator \<Rightarrow> VoxelGrid \<Rightarrow> Rng \<Rightarrow> error + (VoxelCoords list \<times> Rng)" where
  "startingPositions_Component generator grid rng =
     (case generator of
        BasicGen gen \<Rightarrow> startingPositions_Basic gen grid rng
      | WallsGen gen \<Rightarrow> Inr (startingPositions_Walls gen grid, rng)
      | CaveGen gen \<Rightarrow> bindE (startingPositions_Cave gen grid) (\<lambda>ps. Inr (ps, rng))
      | TowerGen gen \<Rightarrow> Inr (startingPositions_Tower gen grid, rng))"

text \<open>
  The starting positions of a freshly constructed generator of an archetype, after
  \<^verbatim>\<open>init\<close> and \<^verbatim>\<open>generate\<close> on an empty grid.
\<close>

definition startingPositionsAfterInit ::
  "LayoutType \<Rightarrow> int \<Rightarrow> Rng \<Rightarrow> (error + VoxelCoords list) option" where
  "startingPositionsAfterInit layoutType n rng =
     (case init_Component n layoutType rng of
        Inl e \<Rightarrow> Some (Inl e)
      | Inr (generator, rng) \<Rightarrow>
          (case generate_Component generator [] rng of
             None \<Rightarrow> None
           | Some (Inl e) \<Rightarrow> Some (Inl e)
           | Some (Inr (generator, grid, rng)) \<Rightarrow>
               Some (bindE (startingPositions_Component generator grid rng) (\<lambda>(ps, rng). Inr ps))))"

text \<open>
  The number of spawn candidates of a Tower generator after \<^verbatim>\<open>init\<close> and the number of
  starting positions it then returns.
\<close>

definition towerCandidatesAndPositions :: "int \<Rightarrow> Rng \<Rightarrow> error + (nat \<times> nat)" where
  "towerCandidatesAndPositions n rng =
     bindE (init_Tower (newTower n) rng) (\<lambda>(gen, rng).
     Inr (length (spawnCandidates_Tower gen), length (startingPositions_Tower gen [])))"

section \<open>The environment: seed and reset\<close>

text \<open>
  The state of \<^verbatim>\<open>Env\<close> that \<^verbatim>\<open>reset\<close> reads or writes; the fields \<^verbatim>\<open>numAgents\<close>,
  \<^verbatim>\<open>rng\<close> and \<^verbatim>\<open>grid\<close> are \<open>envNumAgents\<close>, \<open>envRng\<close> and \<open>envGrid\<close>. The scene and
  the agents, which belong to the rendering collaborator, are left out.
\<close>

record Env =
  envNumAgents :: int
  envRng :: Rng
  episodeDuration :: int
  envGrid :: VoxelGrid
  layoutGenerator :: "Generator option"
  layoutDrawables :: "BoundingBox list"
  exitPad :: BoundingBox
  agentStartingPositions :: "VoxelCoords list"

text \<open>
  Modelled from the spec: \<^verbatim>\<open>rng.seed(value)\<close>, which \<^verbatim>\<open>Env::seed\<close> calls, resets the
  stream deterministically; \<open>mt value\<close> is the sequence of raw values of the sequencer
  seeded with \<open>value\<close>.
\<close>

definition Env_seed :: "(int \<Rightarrow> Rng) \<Rightarrow> int \<Rightarrow> Env \<Rightarrow> Env" where
  "Env_seed mt seedValue env = env\<lparr>envRng := mt seedValue\<rparr>"

text \<open>
  Modelled from the spec: the layout generator that \<^verbatim>\<open>Env::reset\<close> drives
  (\<^verbatim>\<open>init\<close>, \<^verbatim>\<open>generateFloorWalls\<close>, \<^verbatim>\<open>generateCave\<close>, \<^verbatim>\<open>extractPrimitives\<close>,
  \<^verbatim>\<open>levelExit\<close>, \<^verbatim>\<open>startingPositions\<close>) is declared in a header that is not among the sources modelled here; it is
  taken to be the layout component of the requested archetype, whose \<^verbatim>\<open>init\<close> constructs
  the generator anew and whose \<^verbatim>\<open>generate\<close> stands for the two generation calls.
  The steps are those of the source: draw the working seed, reseed, clear the grid,
  initialise, generate, extract the primitives, and (\<open>placeRegions\<close>) place the exit pad,
  shuffle the starting positions and keep the first \<open>numAgents\<close> of them. The order in
  which the hash map yields its entries to \<^verbatim>\<open>extractPrimitives\<close> is left unspecified
  and may differ from one reset to the next; it is the parameter \<open>hashOrder\<close>, which
  rearranges the entries of the grid.
\<close>

definition placeRegions ::
  "Env \<Rightarrow> Generator \<Rightarrow> VoxelGrid \<Rightarrow> BoundingBox list \<Rightarrow> Rng \<Rightarrow> error + Env" where
  "placeRegions env generator grid drawables rng =
     bindE (levelExit_Component generator grid rng) (\<lambda>(pad, rng).
     bindE (startingPositions_Component generator grid rng) (\<lambda>(possibleStartingPositions, rng).
     let (possibleStartingPositions, rng) = shuffle possibleStartingPositions rng
     in bindE (slice possibleStartingPositions 0 (envNumAgents env)) (\<lambda>positions.
        Inr (env\<lparr>envRng := rng, episodeDuration := 0, envGrid := grid,
                 layoutGenerator := Some generator, layoutDrawables := drawables,
                 exitPad := pad, agentStartingPositions := positions\<rparr>))))"

definition Env_reset ::
  "(int \<Rightarrow> Rng) \<Rightarrow> (VoxelGrid \<Rightarrow> VoxelGrid) \<Rightarrow> LayoutType \<Rightarrow> Env \<Rightarrow> (error + Env) option" where
  "Env_reset mt hashOrder layoutType env =
     (case randRange 0 10000 (envRng env) of
        Inl e \<Rightarrow> Some (Inl e)
      | Inr (seed, _) \<Rightarrow>
          (case init_Component (envNumAgents env) layoutType (mt seed) of
             Inl e \<Rightarrow> Some (Inl e)
           | Inr (generator, rng) \<Rightarrow>
               (case generate_Component generator (grid_clear (envGrid env)) rng of
                  None \<Rightarrow> None
                | Some (Inl e) \<Rightarrow> Some (Inl e)
                | Some (Inr (generator, grid, rng)) \<Rightarrow>
                    (case extractPrimitives_Component generator (hashOrder grid) of
                       None \<Rightarrow> None
                     | Some drawables \<Rightarrow>
                         Some (placeRegions env generator grid drawables rng)))))"


section \<open>Notions used in the proofs\<close>

text \<open>A box whose minimum corner is below its maximum corner on every axis.\<close>

definition wfBox :: "BoundingBox \<Rightarrow> bool" where
  "wfBox bbox = (vx (bmin bbox) \<le> vx (bmax bbox) \<and> vy (bmin bbox) \<le> vy (bmax bbox) \<and>
                 vz (bmin bbox) \<le> vz (bmax bbox))"

text \<open>The state of one seed's expansion: the box is well formed, solid, and it is exactly
  what this seed has added to the visited set \<open>V0\<close> it started from.\<close>

definition seedInv :: "VoxelGrid \<Rightarrow> VoxelCoords set \<Rightarrow> VoxelCoords set \<Rightarrow> BoundingBox \<Rightarrow> bool" where
  "seedInv grid V0 visited bbox =
     (wfBox bbox \<and> visited = V0 \<union> coverage bbox \<and> V0 \<inter> coverage bbox = {} \<and>
      coverage bbox \<subseteq> {c. isSolid grid c})"

definition disjointBoxes :: "BoundingBox list \<Rightarrow> bool" where
  "disjointBoxes ps =
     (\<forall>i < length ps. \<forall>j < length ps. i \<noteq> j \<longrightarrow> coverage (ps ! i) \<inter> coverage (ps ! j) = {})"

text \<open>The walls that follow a wall at \<open>prevWallX\<close>: increasing positions, each with room
  behind it, and heights of at least one.\<close>

definition wallsOk :: "int \<Rightarrow> int \<Rightarrow> (int \<times> int) list \<Rightarrow> bool" where
  "wallsOk prevWallX len new =
     (sorted_wrt (<) (prevWallX # map fst new) \<and> (\<forall>w\<in>set new. fst w < len - 3 \<and> 1 \<le> snd w))"

definition interiorCell :: "'a GridLayoutImpl_scheme \<Rightarrow> VoxelCoords \<Rightarrow> bool" where
  "interiorCell gen c =
     (1 \<le> vx c \<and> vx c < length' gen - 1 \<and> vy c = 1 \<and> 1 \<le> vz c \<and> vz c < width gen - 1)"

definition shellGrid :: "'a GridLayoutImpl_scheme \<Rightarrow> VoxelGrid \<Rightarrow> VoxelGrid" where
  "shellGrid gen grid =
     fold (\<lambda>x. fold (\<lambda>y g. grid_set (grid_set g (VoxelCoords x y 0) solidVoxel)
                              (VoxelCoords x y (width gen - 1)) solidVoxel)
                  [0..height gen - 1])
       [0..length' gen - 1]
       (fold (\<lambda>y. fold (\<lambda>z g. grid_set g (VoxelCoords (length' gen - 1) y z) solidVoxel)
                     [0..width gen - 1])
          [0..height gen - 1]
          (fold (\<lambda>y. fold (\<lambda>z g. grid_set g (VoxelCoords 0 y z) solidVoxel) [0..width gen - 1])
             [0..height gen - 1]
             (fold (\<lambda>x. fold (\<lambda>z g. grid_set g (VoxelCoords x 0 z) solidVoxel) [0..width gen - 1])
                [0..length' gen - 1] grid)))"


text \<open>The set of primitives that a reset has left, when it has returned.\<close>

definition primitivesOf :: "(error + Env) option \<Rightarrow> BoundingBox set option" where
  "primitivesOf res =
     (case res of Some (Inr env) \<Rightarrow> Some (set (layoutDrawables env)) | _ \<Rightarrow> None)"

text \<open>An iteration order that yields the entry of a given coordinate first.\<close>

definition toFront :: "VoxelCoords \<Rightarrow> VoxelGrid \<Rightarrow> VoxelGrid" where
  "toFront c grid = filter (\<lambda>e. fst e = c) grid @ filter (\<lambda>e. fst e \<noteq> c) grid"

section \<open>Concrete inputs\<close>

text \<open>An L-shaped block of three solid voxels beside a non-solid entry.\<close>

definition exampleGrid :: VoxelGrid where
  "exampleGrid =
     [(VoxelCoords 0 0 0, solidVoxel), (VoxelCoords 1 0 0, solidVoxel),
      (VoxelCoords 0 1 0, solidVoxel), (VoxelCoords 1 1 0, \<lparr>solid = False, obj = Some 0\<rparr>)]"

text \<open>Raw values that make the Walls generator draw two walls.\<close>

definition wallsTape :: Rng where
  "wallsTape = tapeOf [0, 0, 0, 2, 3, 1, 1, 2, 3, 1]"

definition caveExample :: LayoutGeneratorCave where
  "caveExample = newCave 2\<lparr>length' := 8, width := 7, height := 5, caveHeight := 2\<rparr>"

definition smallCave :: LayoutGeneratorCave where
  "smallCave = newCave 2\<lparr>length' := 5, width := 5, height := 2, caveHeight := 1\<rparr>"

definition exitExample :: LayoutGeneratorCave where
  "exitExample = newCave 2\<lparr>length' := 8, width := 7, height := 5, caveHeight := 2,
                    freeVoxels := [VoxelCoords 2 1 2, VoxelCoords 3 1 3]\<rparr>"

definition exitGrid :: VoxelGrid where
  "exitGrid = [(VoxelCoords 3 1 4, solidVoxel)]"

definition basicExample :: GridLayoutImpl where
  "basicExample = \<lparr>numAgents = 2, length' = 8, height = 3, width = 7\<rparr>"

text \<open>
  Two states of the environment with one agent each that differ in everything else, and a
  family of seeded sequencers.
\<close>

definition envA :: Env where
  "envA =
     \<lparr>envNumAgents = 1, envRng = tapeOf [7], episodeDuration = 12,
      envGrid = [(VoxelCoords 5 5 5, solidVoxel)], layoutGenerator = None, layoutDrawables = [],
      exitPad = \<lparr>bmin = VoxelCoords 0 0 0, bmax = VoxelCoords 0 0 0\<rparr>,
      agentStartingPositions = []\<rparr>"

definition envB :: Env where
  "envB =
     \<lparr>envNumAgents = 1, envRng = tapeOf [1, 2, 3], episodeDuration = 0,
      envGrid = [], layoutGenerator = Some (BasicGen (newBasic 3)),
      layoutDrawables = [\<lparr>bmin = VoxelCoords 0 0 0, bmax = VoxelCoords 1 1 1\<rparr>],
      exitPad = \<lparr>bmin = VoxelCoords 1 1 1, bmax = VoxelCoords 2 2 2\<rparr>,
      agentStartingPositions = [VoxelCoords 1 1 1]\<rparr>"

definition mtExample :: "int \<Rightarrow> Rng" where
  "mtExample seedValue = tapeOf [nat seedValue, 3, 1]"


section \<open>Primitive extraction: the boxes partition the solid voxels\<close>

lemma commitExpansion_eq:
  "commitExpansion cs (vis, bb) = (vis \<union> set cs, fold (\<lambda>c b. addPoint b c) cs bb)"
  unfolding commitExpansion_def
  by (induction cs arbitrary: vis bb) auto

lemma fold_addPoint_corners:
  "vx (bmin (fold (\<lambda>c b. addPoint b c) cs bb)) = fold (\<lambda>c m. min m (vx c)) cs (vx (bmin bb))"
  "vy (bmin (fold (\<lambda>c b. addPoint b c) cs bb)) = fold (\<lambda>c m. min m (vy c)) cs (vy (bmin bb))"
  "vz (bmin (fold (\<lambda>c b. addPoint b c) cs bb)) = fold (\<lambda>c m. min m (vz c)) cs (vz (bmin bb))"
  "vx (bmax (fold (\<lambda>c b. addPoint b c) cs bb)) = fold (\<lambda>c m. max m (vx c)) cs (vx (bmax bb))"
  "vy (bmax (fold (\<lambda>c b. addPoint b c) cs bb)) = fold (\<lambda>c m. max m (vy c)) cs (vy (bmax bb))"
  "vz (bmax (fold (\<lambda>c b. addPoint b c) cs bb)) = fold (\<lambda>c m. max m (vz c)) cs (vz (bmax bb))"
  by (induction cs arbitrary: bb) (simp_all add: addPoint_def)

lemma in_layerCoords:
  "c \<in> set (layerCoords bb d) \<longleftrightarrow>
     rmin (startEndCoord (vx (bmin bb)) (vx (bmax bb)) (vx d)) \<le> vx c \<and>
     vx c \<le> rmax (startEndCoord (vx (bmin bb)) (vx (bmax bb)) (vx d)) \<and>
     rmin (startEndCoord (vy (bmin bb)) (vy (bmax bb)) (vy d)) \<le> vy c \<and>
     vy c \<le> rmax (startEndCoord (vy (bmin bb)) (vy (bmax bb)) (vy d)) \<and>
     rmin (startEndCoord (vz (bmin bb)) (vz (bmax bb)) (vz d)) \<le> vz c \<and>
     vz c \<le> rmax (startEndCoord (vz (bmin bb)) (vz (bmax bb)) (vz d))"
  by (cases c) (auto simp: layerCoords_def Let_def image_iff)

lemma signedDirections_cases:
  "d \<in> set signedDirections \<Longrightarrow>
     d = VoxelCoords (- 1) 0 0 \<or> d = VoxelCoords 1 0 0 \<or> d = VoxelCoords 0 (- 1) 0 \<or>
     d = VoxelCoords 0 1 0 \<or> d = VoxelCoords 0 0 (- 1) \<or> d = VoxelCoords 0 0 1"
  by (auto simp: signedDirections_def directions_def scaleDir_def)

lemma layer_nonempty:
  assumes "wfBox bb" "d \<in> set signedDirections"
  shows "layerCoords bb d \<noteq> []"
proof -
  define c where "c = VoxelCoords (rmin (startEndCoord (vx (bmin bb)) (vx (bmax bb)) (vx d)))
     (rmin (startEndCoord (vy (bmin bb)) (vy (bmax bb)) (vy d)))
     (rmin (startEndCoord (vz (bmin bb)) (vz (bmax bb)) (vz d)))"
  have "c \<in> set (layerCoords bb d)"
    using assms signedDirections_cases[OF assms(2)]
    unfolding in_layerCoords c_def
    by (auto simp: wfBox_def startEndCoord_def)
  then show ?thesis by auto
qed

lemma fold_min_Min:
  "fold (\<lambda>c m. min m (f c)) cs (m::int) = Min (insert m (f ` set cs))"
proof (induction cs arbitrary: m)
  case Nil
  then show ?case by simp
next
  case (Cons a cs)
  have "Min (insert (min m (f a)) (f ` set cs)) = Min (insert m (insert (f a) (f ` set cs)))"
    by (cases "cs = []") (simp_all add: min.assoc)
  with Cons show ?case by simp
qed

lemma fold_max_Max:
  "fold (\<lambda>c m. max m (f c)) cs (m::int) = Max (insert m (f ` set cs))"
proof (induction cs arbitrary: m)
  case Nil
  then show ?case by simp
next
  case (Cons a cs)
  have "Max (insert (max m (f a)) (f ` set cs)) = Max (insert m (insert (f a) (f ` set cs)))"
    by (cases "cs = []") (simp_all add: max.assoc)
  with Cons show ?case by simp
qed

lemma fold_min_box:
  assumes "\<forall>c\<in>set cs. a \<le> f c" "\<exists>c\<in>set cs. f c = a"
  shows "fold (\<lambda>c m. min m (f c)) cs (m::int) = min m a"
proof -
  have "Min (f ` set cs) = a"
    using assms by (intro Min_eqI) auto
  moreover have "f ` set cs \<noteq> {}" using assms(2) by auto
  ultimately show ?thesis unfolding fold_min_Min by simp
qed

lemma fold_max_box:
  assumes "\<forall>c\<in>set cs. f c \<le> b" "\<exists>c\<in>set cs. f c = b"
  shows "fold (\<lambda>c m. max m (f c)) cs (m::int) = max m b"
proof -
  have "Max (f ` set cs) = b"
    using assms by (intro Max_eqI) auto
  moreover have "f ` set cs \<noteq> {}" using assms(2) by auto
  ultimately show ?thesis unfolding fold_max_Max by simp
qed

text \<open>A list that enumerates a non-empty box widens a bounding box by that box.\<close>

lemma fold_addPoint_box:
  assumes L: "\<And>c. c \<in> set cs \<longleftrightarrow> a1 \<le> vx c \<and> vx c \<le> b1 \<and> a2 \<le> vy c \<and> vy c \<le> b2 \<and>
                 a3 \<le> vz c \<and> vz c \<le> b3"
    and ne: "a1 \<le> b1" "a2 \<le> b2" "a3 \<le> b3"
  shows "fold (\<lambda>c b. addPoint b c) cs bb =
     \<lparr>bmin = VoxelCoords (min (vx (bmin bb)) a1) (min (vy (bmin bb)) a2) (min (vz (bmin bb)) a3),
      bmax = VoxelCoords (max (vx (bmax bb)) b1) (max (vy (bmax bb)) b2) (max (vz (bmax bb)) b3)\<rparr>"
proof -
  have lo: "VoxelCoords a1 a2 a3 \<in> set cs" and hi: "VoxelCoords b1 b2 b3 \<in> set cs"
    using ne by (simp_all add: L)
  have 1: "vx (bmin (fold (\<lambda>c b. addPoint b c) cs bb)) = min (vx (bmin bb)) a1"
    unfolding fold_addPoint_corners
    by (rule fold_min_box) (use L lo in \<open>auto intro: bexI[of _ "VoxelCoords a1 a2 a3"]\<close>)
  have 2: "vy (bmin (fold (\<lambda>c b. addPoint b c) cs bb)) = min (vy (bmin bb)) a2"
    unfolding fold_addPoint_corners
    by (rule fold_min_box) (use L lo in \<open>auto intro: bexI[of _ "VoxelCoords a1 a2 a3"]\<close>)
  have 3: "vz (bmin (fold (\<lambda>c b. addPoint b c) cs bb)) = min (vz (bmin bb)) a3"
    unfolding fold_addPoint_corners
    by (rule fold_min_box) (use L lo in \<open>auto intro: bexI[of _ "VoxelCoords a1 a2 a3"]\<close>)
  have 4: "vx (bmax (fold (\<lambda>c b. addPoint b c) cs bb)) = max (vx (bmax bb)) b1"
    unfolding fold_addPoint_corners
    by (rule fold_max_box) (use L hi in \<open>auto intro: bexI[of _ "VoxelCoords b1 b2 b3"]\<close>)
  have 5: "vy (bmax (fold (\<lambda>c b. addPoint b c) cs bb)) = max (vy (bmax bb)) b2"
    unfolding fold_addPoint_corners
    by (rule fold_max_box) (use L hi in \<open>auto intro: bexI[of _ "VoxelCoords b1 b2 b3"]\<close>)
  have 6: "vz (bmax (fold (\<lambda>c b. addPoint b c) cs bb)) = max (vz (bmax bb)) b3"
    unfolding fold_addPoint_corners
    by (rule fold_max_box) (use L hi in \<open>auto intro: bexI[of _ "VoxelCoords b1 b2 b3"]\<close>)
  show ?thesis
    using 1 2 3 4 5 6
    by (cases "fold (\<lambda>c b. addPoint b c) cs bb"; cases "bmin (fold (\<lambda>c b. addPoint b c) cs bb)";
        cases "bmax (fold (\<lambda>c b. addPoint b c) cs bb)") simp
qed


lemma layer_grow:
  assumes "wfBox bb" "d \<in> set signedDirections"
  shows "wfBox (fold (\<lambda>c b. addPoint b c) (layerCoords bb d) bb) \<and>
         coverage (fold (\<lambda>c b. addPoint b c) (layerCoords bb d) bb) =
           coverage bb \<union> set (layerCoords bb d)"
proof -
  let ?X = "startEndCoord (vx (bmin bb)) (vx (bmax bb)) (vx d)"
  let ?Y = "startEndCoord (vy (bmin bb)) (vy (bmax bb)) (vy d)"
  let ?Z = "startEndCoord (vz (bmin bb)) (vz (bmax bb)) (vz d)"
  have wf: "vx (bmin bb) \<le> vx (bmax bb)" "vy (bmin bb) \<le> vy (bmax bb)" "vz (bmin bb) \<le> vz (bmax bb)"
    using assms(1) by (auto simp: wfBox_def)
  have ne: "rmin ?X \<le> rmax ?X" "rmin ?Y \<le> rmax ?Y" "rmin ?Z \<le> rmax ?Z"
    using wf by (simp_all add: startEndCoord_def)
  have eq: "fold (\<lambda>c b. addPoint b c) (layerCoords bb d) bb =
     \<lparr>bmin = VoxelCoords (min (vx (bmin bb)) (rmin ?X)) (min (vy (bmin bb)) (rmin ?Y))
               (min (vz (bmin bb)) (rmin ?Z)),
      bmax = VoxelCoords (max (vx (bmax bb)) (rmax ?X)) (max (vy (bmax bb)) (rmax ?Y))
               (max (vz (bmax bb)) (rmax ?Z))\<rparr>"
    by (rule fold_addPoint_box[OF in_layerCoords ne])
  have cov: "\<And>c. c \<in> coverage bb \<longleftrightarrow> vx (bmin bb) \<le> vx c \<and> vx c \<le> vx (bmax bb) \<and>
         vy (bmin bb) \<le> vy c \<and> vy c \<le> vy (bmax bb) \<and>
         vz (bmin bb) \<le> vz c \<and> vz c \<le> vz (bmax bb)"
    by (simp add: coverage_def)
  from signedDirections_cases[OF assms(2)] show ?thesis
  proof (elim disjE)
    assume d: "d = VoxelCoords (- 1) 0 0"
    show ?thesis unfolding eq using wf
      by (auto simp: d wfBox_def coverage_def in_layerCoords startEndCoord_def)
  next
    assume d: "d = VoxelCoords 1 0 0"
    show ?thesis unfolding eq using wf
      by (auto simp: d wfBox_def coverage_def in_layerCoords startEndCoord_def)
  next
    assume d: "d = VoxelCoords 0 (- 1) 0"
    show ?thesis unfolding eq using wf
      by (auto simp: d wfBox_def coverage_def in_layerCoords startEndCoord_def)
  next
    assume d: "d = VoxelCoords 0 1 0"
    show ?thesis unfolding eq using wf
      by (auto simp: d wfBox_def coverage_def in_layerCoords startEndCoord_def)
  next
    assume d: "d = VoxelCoords 0 0 (- 1)"
    show ?thesis unfolding eq using wf
      by (auto simp: d wfBox_def coverage_def in_layerCoords startEndCoord_def)
  next
    assume d: "d = VoxelCoords 0 0 1"
    show ?thesis unfolding eq using wf
      by (auto simp: d wfBox_def coverage_def in_layerCoords startEndCoord_def)
  qed
qed


lemma finite_solid: "finite {c. isSolid grid c}"
proof (rule finite_subset)
  show "{c. isSolid grid c} \<subseteq> fst ` set grid"
    by (auto simp: isSolid_def grid_get_def split: option.splits dest!: map_of_SomeD intro: rev_image_eqI)
qed simp

lemma expandDir_total:
  assumes "seedInv grid V0 visited bbox" "d \<in> set signedDirections"
  shows "\<exists>visited' bbox'. expandDir grid d visited bbox = Some (visited', bbox') \<and>
           seedInv grid V0 visited' bbox' \<and> visited \<subseteq> visited'"
  using assms(1)
proof (induction "card ({c. isSolid grid c} - visited)" arbitrary: visited bbox rule: less_induct)
  case less
  let ?L = "layerCoords bbox d"
  let ?bb = "fold (\<lambda>c b. addPoint b c) ?L bbox"
  show ?case
  proof (cases "list_all (canTake grid visited) ?L")
    case False
    then show ?thesis using less.prems by (subst expandDir.simps) simp
  next
    case True
    have wf: "wfBox bbox" using less.prems by (simp add: seedInv_def)
    have grow: "wfBox ?bb" "coverage ?bb = coverage bbox \<union> set ?L"
      using layer_grow[OF wf assms(2)] by simp_all
    have ne: "?L \<noteq> []" by (rule layer_nonempty[OF wf assms(2)])
    have Lsolid: "set ?L \<subseteq> {c. isSolid grid c}" and Lnew: "set ?L \<inter> visited = {}"
      using True by (auto simp: list_all_iff canTake_def)
    have inv': "seedInv grid V0 (visited \<union> set ?L) ?bb"
      using less.prems grow Lsolid Lnew unfolding seedInv_def by auto
    have "{c. isSolid grid c} - (visited \<union> set ?L) \<subset> {c. isSolid grid c} - visited"
      using ne Lsolid Lnew by (cases ?L) auto
    then have "card ({c. isSolid grid c} - (visited \<union> set ?L)) < card ({c. isSolid grid c} - visited)"
      by (intro psubset_card_mono) (simp_all add: finite_solid)
    from less.hyps[OF this inv'] obtain visited' bbox' where
      "expandDir grid d (visited \<union> set ?L) ?bb = Some (visited', bbox')" "seedInv grid V0 visited' bbox'"
      "visited \<union> set ?L \<subseteq> visited'"
      by blast
    then show ?thesis using True
      by (subst expandDir.simps) (simp add: commitExpansion_eq)
  qed
qed

lemma expandAll_total:
  assumes "seedInv grid V0 visited bbox" "set ds \<subseteq> set signedDirections"
  shows "\<exists>visited' bbox'. expandAll grid ds visited bbox = Some (visited', bbox') \<and>
           seedInv grid V0 visited' bbox' \<and> visited \<subseteq> visited'"
  using assms
proof (induction ds arbitrary: visited bbox)
  case Nil
  then show ?case by simp
next
  case (Cons d ds)
  from expandDir_total[OF Cons.prems(1), of d] Cons.prems(2) obtain v1 b1 where
    1: "expandDir grid d visited bbox = Some (v1, b1)" "seedInv grid V0 v1 b1" "visited \<subseteq> v1" by auto
  from Cons.IH[OF 1(2)] Cons.prems(2) obtain v2 b2 where
    "expandAll grid ds v1 b1 = Some (v2, b2)" "seedInv grid V0 v2 b2" "v1 \<subseteq> v2" by auto
  with 1 show ?case by simp
qed

lemma disjointBoxes_snoc:
  assumes "disjointBoxes ps" "coverage b \<inter> \<Union> (coverage ` set ps) = {}"
  shows "disjointBoxes (ps @ [b])"
  unfolding disjointBoxes_def
proof (intro allI impI)
  fix i j assume ij: "i < length (ps @ [b])" "j < length (ps @ [b])" "i \<noteq> j"
  have old: "\<And>k. k < length ps \<Longrightarrow> coverage b \<inter> coverage (ps ! k) = {}"
    using assms(2) by (metis Int_iff UN_I disjoint_iff nth_mem)
  show "coverage ((ps @ [b]) ! i) \<inter> coverage ((ps @ [b]) ! j) = {}"
  proof (cases "i < length ps")
    case True
    show ?thesis
    proof (cases "j < length ps")
      case True
      with \<open>i < length ps\<close> ij assms(1) show ?thesis by (simp add: nth_append disjointBoxes_def)
    next
      case False
      with ij have "j = length ps" by simp
      with True old[of i] show ?thesis by (auto simp: nth_append)
    qed
  next
    case False
    with ij have i: "i = length ps" and j: "j < length ps" by auto
    with old[of j] show ?thesis by (auto simp: nth_append)
  qed
qed

lemma extractLoop_total:
  assumes "set rest \<subseteq> set grid" "distinct (map fst grid)"
    "visited = \<Union> (coverage ` set ps)" "disjointBoxes ps" "visited \<subseteq> {c. isSolid grid c}"
  shows "\<exists>ps'. extractLoop grid rest visited ps = Some ps' \<and> disjointBoxes ps' \<and>
           \<Union> (coverage ` set ps') \<subseteq> {c. isSolid grid c} \<and>
           visited \<subseteq> \<Union> (coverage ` set ps') \<and>
           {c. isSolid grid c \<and> c \<in> fst ` set rest} \<subseteq> \<Union> (coverage ` set ps')"
  using assms
proof (induction rest arbitrary: visited ps)
  case Nil
  then show ?case by simp
next
  case (Cons e rest)
  obtain coord voxel where e: "e = (coord, voxel)" by (cases e)
  have inG: "(coord, voxel) \<in> set grid" using Cons.prems(1) e by simp
  have get: "grid_get grid coord = Some voxel"
    using inG Cons.prems(2) by (simp add: grid_get_def)
  have rest: "set rest \<subseteq> set grid" using Cons.prems(1) by simp
  show ?case
  proof (cases "\<not> solid voxel \<or> coord \<in> visited")
    case True
    from Cons.IH[OF rest Cons.prems(2,3,4,5)] obtain ps' where
      ps': "extractLoop grid rest visited ps = Some ps'" "disjointBoxes ps'"
        "\<Union> (coverage ` set ps') \<subseteq> {c. isSolid grid c}" "visited \<subseteq> \<Union> (coverage ` set ps')"
        "{c. isSolid grid c \<and> c \<in> fst ` set rest} \<subseteq> \<Union> (coverage ` set ps')"
      by blast
    have "isSolid grid coord \<Longrightarrow> coord \<in> \<Union> (coverage ` set ps')"
      using True get ps'(4) by (auto simp: isSolid_def)
    with ps' True show ?thesis unfolding e by auto
  next
    case False
    then have sol: "solid voxel" and new: "coord \<notin> visited" by auto
    have inv0: "seedInv grid visited (insert coord visited) \<lparr>bmin = coord, bmax = coord\<rparr>"
      using sol new get
      by (cases coord) (auto simp: seedInv_def wfBox_def coverage_def isSolid_def intro: VoxelCoords.expand)
    from expandAll_total[OF inv0, of signedDirections] obtain v1 b1 where
      ex: "expandAll grid signedDirections (insert coord visited) \<lparr>bmin = coord, bmax = coord\<rparr> = Some (v1, b1)"
      and inv1: "seedInv grid visited v1 b1" and mono: "insert coord visited \<subseteq> v1" by auto
    have v1: "v1 = \<Union> (coverage ` set (ps @ [b1]))"
      using inv1 Cons.prems(3) by (auto simp: seedInv_def)
    have d1: "disjointBoxes (ps @ [b1])"
      using inv1 Cons.prems(3,4) by (intro disjointBoxes_snoc) (auto simp: seedInv_def)
    have s1: "v1 \<subseteq> {c. isSolid grid c}"
      using inv1 Cons.prems(5) by (auto simp: seedInv_def)
    from Cons.IH[OF rest Cons.prems(2) v1 d1 s1] obtain ps' where
      ps': "extractLoop grid rest v1 (ps @ [b1]) = Some ps'" "disjointBoxes ps'"
        "\<Union> (coverage ` set ps') \<subseteq> {c. isSolid grid c}" "v1 \<subseteq> \<Union> (coverage ` set ps')"
        "{c. isSolid grid c \<and> c \<in> fst ` set rest} \<subseteq> \<Union> (coverage ` set ps')"
      by blast
    have "coord \<in> v1" using mono by auto
    moreover have "visited \<subseteq> v1" using mono by auto
    ultimately show ?thesis using ps' False ex unfolding e by auto
  qed
qed


text \<open>
  Claim C1. For every populated grid (an association list with one entry per coordinate),
  \<open>extractPrimitives\<close> returns, and the boxes it returns partition the solid voxels:
  the union of their coverage is exactly the set of solid voxels, no two boxes share a
  coordinate, and every solid voxel lies in exactly one box.
\<close>

theorem extractPrimitives_partition:
  assumes "distinct (map fst grid)"
  shows "\<exists>ps. extractPrimitives grid = Some ps \<and>
           \<Union> (coverage ` set ps) = {c. isSolid grid c} \<and>
           (\<forall>i < length ps. \<forall>j < length ps. i \<noteq> j \<longrightarrow>
              coverage (ps ! i) \<inter> coverage (ps ! j) = {}) \<and>
           (\<forall>c. isSolid grid c \<longrightarrow> (\<exists>!i. i < length ps \<and> c \<in> coverage (ps ! i)))"
proof -
  have "disjointBoxes []" by (simp add: disjointBoxes_def)
  from extractLoop_total[OF subset_refl assms _ this, of "{}"] obtain ps where
    ps: "extractLoop grid grid {} [] = Some ps" "disjointBoxes ps"
      "\<Union> (coverage ` set ps) \<subseteq> {c. isSolid grid c}"
      "{c. isSolid grid c \<and> c \<in> fst ` set grid} \<subseteq> \<Union> (coverage ` set ps)"
    by auto
  have keys: "\<And>c. isSolid grid c \<Longrightarrow> c \<in> fst ` set grid"
    by (auto simp: isSolid_def grid_get_def split: option.splits dest!: map_of_SomeD intro: rev_image_eqI)
  have un: "\<Union> (coverage ` set ps) = {c. isSolid grid c}"
    using ps(3,4) keys by auto
  have dj: "\<forall>i < length ps. \<forall>j < length ps. i \<noteq> j \<longrightarrow> coverage (ps ! i) \<inter> coverage (ps ! j) = {}"
    using ps(2) by (simp add: disjointBoxes_def)
  have one: "\<exists>!i. i < length ps \<and> c \<in> coverage (ps ! i)" if "isSolid grid c" for c
  proof -
    from that un have "c \<in> \<Union> (coverage ` set ps)" by simp
    then obtain i where i: "i < length ps" "c \<in> coverage (ps ! i)"
      by (auto simp: in_set_conv_nth)
    show ?thesis
    proof (rule ex1I[of _ i])
      show "i < length ps \<and> c \<in> coverage (ps ! i)" using i by simp
    next
      fix j assume "j < length ps \<and> c \<in> coverage (ps ! j)"
      with i dj show "j = i" by (metis IntI empty_iff)
    qed
  qed
  show ?thesis using ps(1) un dj one by (auto simp: extractPrimitives_def)
qed

lemma exampleGrid_primitives:
  "extractPrimitives exampleGrid =
     Some [\<lparr>bmin = VoxelCoords 0 0 0, bmax = VoxelCoords 1 0 0\<rparr>,
           \<lparr>bmin = VoxelCoords 0 1 0, bmax = VoxelCoords 0 1 0\<rparr>]"
  by (simp add: extractPrimitives_def exampleGrid_def solidVoxel_def signedDirections_def
      directions_def scaleDir_def expandDir.simps layerCoords_def startEndCoord_def canTake_def
      isSolid_def grid_get_def commitExpansion_def addPoint_def Let_def upto.simps)

theorem extractPrimitives_partition_witness:
  "distinct (map fst exampleGrid) \<and>
   extractPrimitives exampleGrid =
     Some [\<lparr>bmin = VoxelCoords 0 0 0, bmax = VoxelCoords 1 0 0\<rparr>,
           \<lparr>bmin = VoxelCoords 0 1 0, bmax = VoxelCoords 0 1 0\<rparr>] \<and>
   coverage \<lparr>bmin = VoxelCoords 0 0 0, bmax = VoxelCoords 1 0 0\<rparr> \<union>
   coverage \<lparr>bmin = VoxelCoords 0 1 0, bmax = VoxelCoords 0 1 0\<rparr> = {c. isSolid exampleGrid c}"
proof -
  have d: "distinct (map fst exampleGrid)" by (simp add: exampleGrid_def)
  from extractPrimitives_partition[OF d] exampleGrid_primitives d show ?thesis by auto
qed

section \<open>Facts about the random sequencer and the helpers\<close>

lemma grid_get_Nil: "grid_get [] c = None"
  by (simp add: grid_get_def)

lemma randRange_ok:
  assumes "low < high"
  shows "\<exists>v rng'. randRange low high rng = Inr (v, rng') \<and> low \<le> v \<and> v < high \<and> rng' = advance rng"
proof -
  have "nextRaw rng mod nat (high - low) < nat (high - low)"
    using assms by simp
  then have "int (nextRaw rng mod nat (high - low)) < high - low"
    by linarith
  then show ?thesis using assms by (simp add: randRange_def)
qed

lemma randRange_empty: "high \<le> low \<Longrightarrow> randRange low high rng = Inl EmptyRange"
  by (simp add: randRange_def)

lemma bindE_Inr [simp]: "bindE (Inr a) f = f a"
  by (simp add: bindE_def)

lemma bindE_Inl [simp]: "bindE (Inl e) f = Inl e"
  by (simp add: bindE_def)

lemma tapeOf_Cons [simp]: "nextRaw (tapeOf (r # raws)) = r" "advance (tapeOf (r # raws)) = tapeOf raws"
  by (auto simp: nextRaw_def advance_def tapeOf_def)

lemma tapeOf_Nil [simp]: "nextRaw (tapeOf []) = 0" "advance (tapeOf []) = tapeOf []"
  by (auto simp: nextRaw_def advance_def tapeOf_def)

lemma upto_from_0: "[0..numeral n] = 0 # [1..numeral n]"
  by (simp add: upto.simps)

lemma upto_from_1: "[1..numeral n] = 1 # [2..numeral n]"
  by (subst upto.simps) simp

lemma shuffleFrom_mset:
  "i < length xs \<Longrightarrow> mset (fst (shuffleFrom i xs rng)) = mset xs"
proof (induction i arbitrary: xs rng)
  case 0
  then show ?case by simp
next
  case (Suc i)
  let ?j = "nextRaw rng mod (Suc (Suc i))"
  have j: "?j < length xs" using Suc.prems by (meson less_Suc_eq_le less_le_trans mod_less_divisor not_less_eq zero_less_Suc)
  let ?ys = "xs[Suc i := xs ! ?j, ?j := xs ! Suc i]"
  have "mset ?ys = mset xs" using Suc.prems j by (simp add: mset_swap)
  moreover have "i < length ?ys" using Suc.prems by simp
  ultimately show ?case using Suc.IH[of ?ys "advance rng"] by (simp add: Let_def)
qed

lemma shuffle_mset: "mset (fst (shuffle xs rng)) = mset xs"
proof (cases xs)
  case Nil
  then show ?thesis by (simp add: shuffle_def)
next
  case (Cons a list)
  then show ?thesis unfolding shuffle_def by (intro shuffleFrom_mset) simp
qed

lemma shuffle_length: "length (fst (shuffle xs rng)) = length xs"
  using shuffle_mset[of xs rng] by (metis size_mset)

lemma shuffle_set: "set (fst (shuffle xs rng)) = set xs"
  using shuffle_mset[of xs rng] by (metis set_mset_mset)

lemma slice_ok:
  "0 \<le> a \<and> a \<le> b \<and> b \<le> int (length v) \<Longrightarrow>
   slice v a b = Inr (take (nat (b - a)) (drop (nat a) v))"
  by (simp add: slice_def)

lemma slice_cases: "slice v a b = Inl OutOfRange \<or> (\<exists>ys. slice v a b = Inr ys)"
  by (simp add: slice_def)

lemma init_Basic_ok:
  "\<exists>l w h rng'. init_Basic gen rng = Inr (gen\<lparr>length' := l, width := w, height := h\<rparr>, rng') \<and>
     8 \<le> l \<and> l < 30 \<and> 7 \<le> w \<and> w < 25 \<and> 3 \<le> h \<and> h < 5"
proof -
  obtain l r1 where l: "randRange 8 30 rng = Inr (l, r1)" "8 \<le> l" "l < 30"
    using randRange_ok[of 8 30 rng] by auto
  obtain w r2 where w: "randRange 7 25 r1 = Inr (w, r2)" "7 \<le> w" "w < 25"
    using randRange_ok[of 7 25 r1] by auto
  obtain h r3 where h: "randRange 3 5 r2 = Inr (h, r3)" "3 \<le> h" "h < 5"
    using randRange_ok[of 3 5 r2] by auto
  show ?thesis
    using l w h by (auto simp: init_Basic_def init_GridLayoutImpl_def)
qed

lemma in_cells_xz:
  "c \<in> set (concat (map (\<lambda>x. map (\<lambda>z. VoxelCoords x y z) [z0..z1]) [x0..x1])) \<longleftrightarrow>
     x0 \<le> vx c \<and> vx c \<le> x1 \<and> vy c = y \<and> z0 \<le> vz c \<and> vz c \<le> z1"
proof (cases c)
  case (VoxelCoords a b d)
  have "(\<exists>x\<in>{x0..x1}. VoxelCoords a b d \<in> VoxelCoords x y ` {z0..z1}) \<longleftrightarrow>
        x0 \<le> a \<and> a \<le> x1 \<and> b = y \<and> z0 \<le> d \<and> d \<le> z1"
    by (auto simp: image_iff)
  then show ?thesis unfolding VoxelCoords by simp
qed


section \<open>The Basic generator: the room shell\<close>

lemma grid_get_set: "grid_get (grid_set g c v) c' = (if c' = c then Some v else grid_get g c')"
  by (simp add: grid_get_def grid_set_def update_conv')

lemma grid_get_fold1:
  "grid_get (fold (\<lambda>z g. grid_set g (f z) v) zs g) c =
     (if c \<in> f ` set zs then Some v else grid_get g c)"
  by (induction zs arbitrary: g) (auto simp: grid_get_set)

lemma grid_get_fold2:
  "grid_get (fold (\<lambda>x. fold (\<lambda>z g. grid_set g (f x z) v) zs) xs g) c =
     (if \<exists>x\<in>set xs. \<exists>z\<in>set zs. c = f x z then Some v else grid_get g c)"
  by (induction xs arbitrary: g) (auto simp: grid_get_fold1)

lemma forStride_two:
  assumes "2 \<le> n"
  shows "forStride 0 n (n - 1) body g = Some (body (n - 1) (body 0 g))"
proof -
  have "forStride 0 n (n - 1) body g = forStride (n - 1) n (n - 1) body (body 0 g)"
    using assms by (subst forStride.simps) simp
  also have "\<dots> = forStride (n - 1 + (n - 1)) n (n - 1) body (body (n - 1) (body 0 g))"
    by (subst forStride.simps) simp
  also have "\<dots> = Some (body (n - 1) (body 0 g))"
    using assms by (subst forStride.simps) simp
  finally show ?thesis .
qed

lemma foldOpt_Some: "foldOpt (\<lambda>x s. Some (h x s)) xs s = Some (fold h xs s)"
  by (induction xs arbitrary: s) simp_all


lemma foldOpt_Some_fun: "foldOpt (\<lambda>x s. Some (h x s)) xs = (\<lambda>s. Some (fold h xs s))"
  by (rule ext) (rule foldOpt_Some)

lemma forStride_two_fun:
  "2 \<le> n \<Longrightarrow> forStride 0 n (n - 1) body = (\<lambda>g. Some (body (n - 1) (body 0 g)))"
  by (rule ext) (rule forStride_two)

lemma grid_get_fold_gen:
  assumes "\<And>x g c. x \<in> set xs \<Longrightarrow> grid_get (k x g) c = (if P x c then Some v else grid_get g c)"
  shows "grid_get (fold k xs g) c = (if \<exists>x\<in>set xs. P x c then Some v else grid_get g c)"
  using assms by (induction xs arbitrary: g) auto

lemma if_chain:
  "(if A then S else if X1 \<and> R then S else if X0 \<and> R then S else if C then S else G) =
   (if A \<or> ((X0 \<or> X1) \<and> R) \<or> C then S else G)"
  by auto

text \<open>The grid that \<open>generate_Basic\<close> returns, as a lookup function.\<close>

lemma generate_Basic_get:
  assumes "2 \<le> length' gen" "2 \<le> width gen"
  shows "\<exists>grid'. generate_Basic gen grid = Some grid' \<and>
     (\<forall>c. grid_get grid' c =
        (if (0 \<le> vx c \<and> vx c < length' gen \<and> 0 \<le> vy c \<and> vy c < height gen \<and>
             (vz c = 0 \<or> vz c = width gen - 1)) \<or>
            ((vx c = 0 \<or> vx c = length' gen - 1) \<and> 0 \<le> vy c \<and> vy c < height gen \<and>
             0 \<le> vz c \<and> vz c < width gen) \<or>
            (0 \<le> vx c \<and> vx c < length' gen \<and> vy c = 0 \<and> 0 \<le> vz c \<and> vz c < width gen)
         then Some solidVoxel else grid_get grid c))"
proof -
  let ?L = "length' gen" and ?W = "width gen" and ?H = "height gen"
  let ?g1 = "fold (\<lambda>x. fold (\<lambda>z g. grid_set g (VoxelCoords x 0 z) solidVoxel) [0..?W - 1]) [0..?L - 1] grid"
  let ?slab = "\<lambda>x. fold (\<lambda>y. fold (\<lambda>z g. grid_set g (VoxelCoords x y z) solidVoxel) [0..?W - 1]) [0..?H - 1]"
  let ?g2 = "?slab (?L - 1) (?slab 0 ?g1)"
  let ?g3 = "fold (\<lambda>x. fold (\<lambda>y g. grid_set (grid_set g (VoxelCoords x y 0) solidVoxel)
                 (VoxelCoords x y (?W - 1)) solidVoxel) [0..?H - 1]) [0..?L - 1] ?g2"
  have run: "generate_Basic gen grid = Some ?g3"
    unfolding generate_Basic_def Let_def
    by (simp add: forStride_two[OF assms(1)] forStride_two_fun[OF assms(2)] foldOpt_Some_fun)
  have g1: "grid_get ?g1 c = (if 0 \<le> vx c \<and> vx c < ?L \<and> vy c = 0 \<and> 0 \<le> vz c \<and> vz c < ?W
                              then Some solidVoxel else grid_get grid c)" for c
    by (cases c) (auto simp: grid_get_fold2)
  have slab: "grid_get (?slab x g) c = (if vx c = x \<and> 0 \<le> vy c \<and> vy c < ?H \<and> 0 \<le> vz c \<and> vz c < ?W
                              then Some solidVoxel else grid_get g c)" for x g c
    by (cases c) (auto simp: grid_get_fold2)
  have g3: "grid_get ?g3 c = (if 0 \<le> vx c \<and> vx c < ?L \<and> 0 \<le> vy c \<and> vy c < ?H \<and>
                               (vz c = 0 \<or> vz c = ?W - 1)
                              then Some solidVoxel else grid_get ?g2 c)" for c
  proof -
    have inner: "grid_get (fold (\<lambda>y g. grid_set (grid_set g (VoxelCoords x y 0) solidVoxel)
                 (VoxelCoords x y (?W - 1)) solidVoxel) [0..?H - 1] g) c' =
          (if \<exists>y\<in>set [0..?H - 1]. (c' = VoxelCoords x y 0 \<or> c' = VoxelCoords x y (?W - 1))
           then Some solidVoxel else grid_get g c')" for x g c'
      by (rule grid_get_fold_gen) (auto simp: grid_get_set)
    have key: "grid_get ?g3 c =
          (if \<exists>x\<in>set [0..?L - 1]. \<exists>y\<in>set [0..?H - 1]. (c = VoxelCoords x y 0 \<or> c = VoxelCoords x y (?W - 1))
           then Some solidVoxel else grid_get ?g2 c)"
      by (rule grid_get_fold_gen) (simp add: inner)
    have cond: "(\<exists>x\<in>set [0..?L - 1]. \<exists>y\<in>set [0..?H - 1]. (c = VoxelCoords x y 0 \<or> c = VoxelCoords x y (?W - 1)))
          \<longleftrightarrow> (0 \<le> vx c \<and> vx c < ?L \<and> 0 \<le> vy c \<and> vy c < ?H \<and> (vz c = 0 \<or> vz c = ?W - 1))"
      by (cases c) (auto simp: Bex_def)
    show ?thesis unfolding key cond by (rule refl)
  qed
  have "grid_get ?g3 c =
        (if (0 \<le> vx c \<and> vx c < ?L \<and> 0 \<le> vy c \<and> vy c < ?H \<and> (vz c = 0 \<or> vz c = ?W - 1)) \<or>
            ((vx c = 0 \<or> vx c = ?L - 1) \<and> 0 \<le> vy c \<and> vy c < ?H \<and> 0 \<le> vz c \<and> vz c < ?W) \<or>
            (0 \<le> vx c \<and> vx c < ?L \<and> vy c = 0 \<and> 0 \<le> vz c \<and> vz c < ?W)
         then Some solidVoxel else grid_get grid c)" for c
    unfolding g3 slab g1 by (rule if_chain)
  with run show ?thesis by blast
qed


text \<open>
  Claim C3. With a footprint of at least two cells along x and along z (the Basic
  generator draws a length of at least 8 and a width of at least 7), \<open>generate_Basic\<close> on
  the empty grid returns, the floor plane y = 0 and the four perimeter wall slabs are
  solid, and every interior coordinate above the floor is absent from the grid.
\<close>

theorem generate_Basic_shell:
  assumes "2 \<le> length' gen" "2 \<le> width gen"
  shows "\<exists>grid'. generate_Basic gen [] = Some grid' \<and>
     (\<forall>x z. 0 \<le> x \<and> x < length' gen \<and> 0 \<le> z \<and> z < width gen \<longrightarrow>
        isSolid grid' (VoxelCoords x 0 z)) \<and>
     (\<forall>x y z. 0 \<le> x \<and> x < length' gen \<and> 0 \<le> y \<and> y < height gen \<and> 0 \<le> z \<and> z < width gen \<and>
        (x = 0 \<or> x = length' gen - 1 \<or> z = 0 \<or> z = width gen - 1) \<longrightarrow>
        isSolid grid' (VoxelCoords x y z)) \<and>
     (\<forall>x y z. 0 < x \<and> x < length' gen - 1 \<and> 0 < z \<and> z < width gen - 1 \<and> 0 < y \<longrightarrow>
        grid_get grid' (VoxelCoords x y z) = None)"
proof -
  from generate_Basic_get[OF assms, of "[]"] obtain grid' where
    run: "generate_Basic gen [] = Some grid'" and
    get: "\<And>c. grid_get grid' c =
        (if (0 \<le> vx c \<and> vx c < length' gen \<and> 0 \<le> vy c \<and> vy c < height gen \<and>
             (vz c = 0 \<or> vz c = width gen - 1)) \<or>
            ((vx c = 0 \<or> vx c = length' gen - 1) \<and> 0 \<le> vy c \<and> vy c < height gen \<and>
             0 \<le> vz c \<and> vz c < width gen) \<or>
            (0 \<le> vx c \<and> vx c < length' gen \<and> vy c = 0 \<and> 0 \<le> vz c \<and> vz c < width gen)
         then Some solidVoxel else grid_get [] c)"
    by blast
  have floor: "isSolid grid' (VoxelCoords x 0 z)"
    if "0 \<le> x \<and> x < length' gen \<and> 0 \<le> z \<and> z < width gen" for x z
    using that by (simp add: isSolid_def get solidVoxel_def)
  have walls: "isSolid grid' (VoxelCoords x y z)"
    if "0 \<le> x \<and> x < length' gen \<and> 0 \<le> y \<and> y < height gen \<and> 0 \<le> z \<and> z < width gen \<and>
        (x = 0 \<or> x = length' gen - 1 \<or> z = 0 \<or> z = width gen - 1)" for x y z
    using that by (auto simp: isSolid_def get solidVoxel_def)
  have inner: "grid_get grid' (VoxelCoords x y z) = None"
    if "0 < x \<and> x < length' gen - 1 \<and> 0 < z \<and> z < width gen - 1 \<and> 0 < y" for x y z
    using that by (simp add: get grid_get_Nil)
  from run floor walls inner show ?thesis by blast
qed

theorem generate_Basic_shell_witness:
  "(2::int) \<le> length' \<lparr>numAgents = 2, length' = 8, height = 3, width = 7\<rparr> \<and>
   (2::int) \<le> width \<lparr>numAgents = 2, length' = 8, height = 3, width = 7\<rparr> \<and>
   (\<exists>grid'. generate_Basic \<lparr>numAgents = 2, length' = 8, height = 3, width = 7\<rparr> [] = Some grid' \<and>
      isSolid grid' (VoxelCoords 4 0 3) \<and> isSolid grid' (VoxelCoords 7 2 3) \<and>
      isSolid grid' (VoxelCoords 4 1 0) \<and> grid_get grid' (VoxelCoords 4 1 3) = None)"
proof -
  have h: "(2::int) \<le> length' \<lparr>numAgents = 2, length' = 8, height = 3, width = 7\<rparr>"
    "(2::int) \<le> width \<lparr>numAgents = 2, length' = 8, height = 3, width = 7\<rparr>"
    by simp_all
  from generate_Basic_shell[OF h] obtain grid' where
    g: "generate_Basic \<lparr>numAgents = 2, length' = 8, height = 3, width = 7\<rparr> [] = Some grid'"
    and f: "\<And>x z. 0 \<le> x \<and> x < 8 \<and> 0 \<le> z \<and> z < 7 \<longrightarrow> isSolid grid' (VoxelCoords x 0 z)"
    and w: "\<And>x y z. 0 \<le> x \<and> x < 8 \<and> 0 \<le> y \<and> y < 3 \<and> 0 \<le> z \<and> z < 7 \<and>
        (x = 0 \<or> x = 8 - 1 \<or> z = 0 \<or> z = 7 - 1) \<longrightarrow> isSolid grid' (VoxelCoords x y z)"
    and i: "\<And>x y z. 0 < x \<and> x < 8 - 1 \<and> 0 < z \<and> z < 7 - 1 \<and> 0 < y \<longrightarrow>
        grid_get grid' (VoxelCoords x y z) = None"
    by auto
  from f[where x = 4 and z = 3] w[where x = 7 and y = 2 and z = 3] w[where x = 4 and y = 1 and z = 0]
    i[where x = 4 and y = 1 and z = 3] g h show ?thesis by auto
qed

section \<open>The Basic generator: the exit pad\<close>

text \<open>
  When the agents fit beside the pad (\<open>numAgents \<le> width - 2\<close>), the pad has z-extent
  \<open>min 3 numAgents\<close>, stands against the far x-wall at heights 1 to 2, and its cells lie
  between z = 1 and z = width - 1.
\<close>

lemma levelExit_Basic_fits:
  assumes "1 \<le> numAgents gen" "min 3 (numAgents gen) \<le> width gen - 2"
    "numAgents gen \<le> width gen - 2"
  shows "\<exists>box rng'. levelExit_Basic gen grid rng = Inr (box, rng') \<and>
           vz (bmax box) - vz (bmin box) = min 3 (numAgents gen) \<and>
           vx (bmin box) = length' gen - 2 \<and> vx (bmax box) = length' gen - 1 \<and>
           vy (bmin box) = 1 \<and> vy (bmax box) = 2 \<and>
           1 \<le> vz (bmin box) \<and> vz (bmax box) \<le> width gen - 1"
proof -
  obtain x r1 where x: "randRange (length' gen - 2) (length' gen - 1) rng = Inr (x, r1)"
    "length' gen - 2 \<le> x" "x < length' gen - 1"
    using randRange_ok[of "length' gen - 2" "length' gen - 1" rng] by auto
  obtain z r2 where z: "randRange 1 (width gen - numAgents gen) r1 = Inr (z, r2)"
    "1 \<le> z" "z < width gen - numAgents gen"
    using randRange_ok[of 1 "width gen - numAgents gen" r1] assms by auto
  show ?thesis
    using assms x z by (auto simp: levelExit_Basic_def Let_def)
qed

text \<open>When the pad is wider than the interior the assertion fails.\<close>

lemma levelExit_Basic_assert:
  assumes "width gen - 2 < min 3 (numAgents gen)"
  shows "levelExit_Basic gen grid rng = Inl AssertionFailed"
proof -
  have "\<not> (width gen - 2 \<ge> min 3 (numAgents gen))" using assms by linarith
  then show ?thesis unfolding levelExit_Basic_def Let_def by (simp only: if_True simp_thms)
qed

text \<open>
  Claim C4 promises a pad inside the interior for every agent count of at least one whose
  pad passes the assertion. The code draws the z position below \<open>width - numAgents\<close>
  rather than below \<open>width - exitPadWidth\<close>: with six agents and the smallest generated
  width, 7, the assertion holds (5 \<ge> 3) and the draw is from the empty range from 1 to 1,
  so no pad is returned.
\<close>

theorem levelExit_Basic_six_agents:
  "levelExit_Basic \<lparr>numAgents = 6, length' = 8, height = 3, width = 7\<rparr> grid rng = Inl EmptyRange"
proof -
  obtain x r1 where x: "randRange 6 7 rng = Inr (x, r1)"
    using randRange_ok[of 6 7 rng] by auto
  then show ?thesis
    by (simp add: levelExit_Basic_def Let_def randRange_empty)
qed


section \<open>The Walls generator: wall positions\<close>

lemma placeNextWalls_ok:
  assumes "1 \<le> tallestWall gen" "\<forall>i\<in>set is. i \<le> numWalls - 1"
  shows "\<exists>gen' rng' warned new.
           placeNextWalls numWalls is prevWallX gen rng = Inr (gen', rng', warned) \<and>
           gen' = gen\<lparr>walls := walls gen @ new, maxWallHeight := maxWallHeight gen',
                      maxWallX := maxWallX gen'\<rparr> \<and>
           wallsOk prevWallX (length' gen) new \<and>
           length new \<le> length is \<and> (warned \<noteq> [] \<longleftrightarrow> length new < length is) \<and>
           maxWallHeight gen \<le> maxWallHeight gen' \<and>
           (\<forall>w\<in>set new. fst w \<le> maxWallX gen') \<and> maxWallX gen \<le> maxWallX gen' \<and>
           (maxWallX gen < length' gen - 3 \<longrightarrow> maxWallX gen' < length' gen - 3)"
  using assms
proof (induction "is" arbitrary: prevWallX gen rng)
  case Nil
  show ?case by (simp add: wallsOk_def) 
next
  case (Cons i "is")
  obtain wallHeight r1 where h: "randRange 1 (tallestWall gen + 1) rng = Inr (wallHeight, r1)"
    "1 \<le> wallHeight" 
    using randRange_ok[of 1 "tallestWall gen + 1" rng] Cons.prems(1) by auto
  let ?rs = "3 + (numWalls - i - 1) * 2"
  have rs: "3 \<le> ?rs" using Cons.prems(2) by simp
  show ?case
  proof (cases "prevWallX + 1 \<ge> length' gen - ?rs")
    case True
    then have "placeNextWalls numWalls (i # is) prevWallX gen rng = Inr (gen, r1, [i])"
      using h by (simp add: Let_def)
    then show ?thesis
      by (intro exI[of _ gen] exI[of _ r1] exI[of _ "[i]"] exI[of _ "[]"]) (simp add: wallsOk_def)
  next
    case False
    then obtain wallX r2 where x: "randRange (prevWallX + 1) (length' gen - ?rs) r1 = Inr (wallX, r2)"
      "prevWallX + 1 \<le> wallX" "wallX < length' gen - ?rs"
      using randRange_ok[of "prevWallX + 1" "length' gen - ?rs" r1] by auto
    let ?gen = "gen\<lparr>walls := walls gen @ [(wallX, wallHeight)],
                   maxWallHeight := max (maxWallHeight gen) wallHeight,
                   maxWallX := max (maxWallX gen) wallX\<rparr>"
    have p1: "1 \<le> tallestWall ?gen" using Cons.prems(1) by simp
    have p2: "\<forall>i\<in>set is. i \<le> numWalls - 1" using Cons.prems(2) by simp
    from Cons.IH[OF p1 p2, of wallX r2] obtain gen' rng' warned new where
      rec: "placeNextWalls numWalls is wallX ?gen r2 = Inr (gen', rng', warned)"
        "gen' = ?gen\<lparr>walls := walls ?gen @ new, maxWallHeight := maxWallHeight gen',
                      maxWallX := maxWallX gen'\<rparr>"
        "wallsOk wallX (length' ?gen) new"
        "length new \<le> length is" "(warned \<noteq> [] \<longleftrightarrow> length new < length is)"
        "maxWallHeight ?gen \<le> maxWallHeight gen'"
        "(\<forall>w\<in>set new. fst w \<le> maxWallX gen')" "maxWallX ?gen \<le> maxWallX gen'"
        "(maxWallX ?gen < length' ?gen - 3 \<longrightarrow> maxWallX gen' < length' ?gen - 3)"
      by blast
    have run: "placeNextWalls numWalls (i # is) prevWallX gen rng = Inr (gen', rng', warned)"
      using h x False rec(1) by (simp add: Let_def)
    have ok: "wallsOk prevWallX (length' gen) ((wallX, wallHeight) # new)"
      using rec(3) x(2,3) rs h(2) by (auto simp: wallsOk_def)
    have shape: "gen' = gen\<lparr>walls := walls gen @ ((wallX, wallHeight) # new),
                      maxWallHeight := maxWallHeight gen', maxWallX := maxWallX gen'\<rparr>"
      by (subst rec(2)) simp
    show ?thesis
      apply (rule exI[of _ gen'], rule exI[of _ rng'], rule exI[of _ warned],
             rule exI[of _ "(wallX, wallHeight) # new"])
      using run ok shape rec(4-9) x(3) rs by auto
  qed
qed

lemma placeWalls_ok:
  assumes "0 \<le> maxNumWalls gen" "maxNumWalls gen \<le> 13" "1 \<le> tallestWall gen" "walls gen = []"
  shows "\<exists>gen' rng' numWalls warned.
           placeWalls gen rng = Inr (gen', rng', numWalls, warned) \<and>
           sorted_wrt (<) (map fst (walls gen')) \<and>
           (\<forall>w\<in>set (walls gen'). firstWallX gen' \<le> fst w \<and> fst w < length' gen' - 1 \<and> 1 \<le> snd w) \<and>
           int (length (walls gen')) \<le> numWalls \<and>
           (warned \<noteq> [] \<longleftrightarrow> int (length (walls gen')) < numWalls) \<and>
           0 \<le> numWalls \<and> numWalls \<le> maxNumWalls gen \<and>
           width gen' = width gen \<and> numAgents gen' = numAgents gen \<and>
           (firstWallX gen' = firstWallX gen \<or> 4 \<le> firstWallX gen')"
proof -
  obtain numWalls r1 where n: "randRange 0 (maxNumWalls gen + 1) rng = Inr (numWalls, r1)"
    "0 \<le> numWalls" "numWalls < maxNumWalls gen + 1"
    using randRange_ok[of 0 "maxNumWalls gen + 1" rng] assms(1) by auto
  let ?minLength = "numWalls * 2 + 4 + 3"
  obtain l r2 where l: "randRange ?minLength 35 r1 = Inr (l, r2)" "?minLength \<le> l" "l < 35"
    using randRange_ok[of ?minLength 35 r1] n(3) assms(2) by auto
  let ?g0 = "gen\<lparr>length' := l\<rparr>"
  show ?thesis
  proof (cases "numWalls \<le> 0")
    case True
    then have "placeWalls gen rng = Inr (?g0, r2, numWalls, [])"
      using n l by (simp add: placeWalls_def Let_def)
    then show ?thesis
      using assms True n(2,3)
      by (intro exI[of _ ?g0] exI[of _ r2] exI[of _ numWalls] exI[of _ "[]"]) simp
  next
    case False
    obtain fwx r3 where f: "randRange 4 (4 + 1 + l - ?minLength) r2 = Inr (fwx, r3)"
      "4 \<le> fwx" "fwx < 4 + 1 + l - ?minLength"
      using randRange_ok[of 4 "4 + 1 + l - ?minLength" r2] l(2) by auto
    obtain fh r4 where h: "randRange 1 (tallestWall gen + 1) r3 = Inr (fh, r4)" "1 \<le> fh"
      using randRange_ok[of 1 "tallestWall gen + 1" r3] assms(3) by auto
    let ?g1 = "?g0\<lparr>firstWallX := fwx, maxWallX := fwx, maxWallHeight := fh,
                    walls := walls ?g0 @ [(fwx, fh)]\<rparr>"
    have p1: "1 \<le> tallestWall ?g1" using assms(3) by simp
    have p2: "\<forall>i\<in>set [1..numWalls - 1]. i \<le> numWalls - 1" by simp
    from placeNextWalls_ok[OF p1 p2, of fwx r4] obtain gen' rng' warned new where
      rec: "placeNextWalls numWalls [1..numWalls - 1] fwx ?g1 r4 = Inr (gen', rng', warned)"
        "gen' = ?g1\<lparr>walls := walls ?g1 @ new, maxWallHeight := maxWallHeight gen',
                      maxWallX := maxWallX gen'\<rparr>"
        "wallsOk fwx (length' ?g1) new"
        "length new \<le> length [1..numWalls - 1]"
        "(warned \<noteq> [] \<longleftrightarrow> length new < length [1..numWalls - 1])"
      by blast
    have run: "placeWalls gen rng = Inr (gen', rng', numWalls, warned)"
      using n l f h False rec(1) by (simp add: placeWalls_def Let_def)
    have w: "walls gen' = (fwx, fh) # new" "firstWallX gen' = fwx" "length' gen' = l"
      "width gen' = width gen" "numAgents gen' = numAgents gen"
      by (subst rec(2), simp add: assms(4))+
    have len: "int (length [1..numWalls - 1]) = numWalls - 1"
      using False by simp
    have "fwx < l - 1" using f(3) False by simp
    then show ?thesis
      using run w rec(3,4,5) len h(2) f(2) n(2,3)
      by (intro exI[of _ gen'] exI[of _ rng'] exI[of _ numWalls] exI[of _ warned])
         (auto simp: wallsOk_def)
  qed
qed

lemma placeSpawns_Walls_cases:
  "placeSpawns_Walls gen rng = Inl OutOfRange \<or>
   (\<exists>h a ob rng'. placeSpawns_Walls gen rng =
      Inr (gen\<lparr>height := h, agentSpawnCoords := a, objectSpawnCoords := ob\<rparr>, rng'))"
proof -
  obtain h r1 where h: "randRange 3 5 rng = Inr (h, r1)"
    using randRange_ok[of 3 5 rng] by auto
  let ?gen = "gen\<lparr>height := h + maxWallHeight gen\<rparr>"
  obtain cands r2 where c: "shuffle (spawnCandidates_Walls ?gen) r1 = (cands, r2)"
    by (cases "shuffle (spawnCandidates_Walls ?gen) r1")
  let ?m = "fold (\<lambda>wall m. m + (snd wall - 1) * 2) (walls ?gen) 0"
  obtain n r3 where n: "randRange ?m (?m + 4) r2 = Inr (n, r3)"
    using randRange_ok[of ?m "?m + 4" r2] by auto
  let ?n = "min n (int (length cands) - (0 + numAgents ?gen))"
  show ?thesis
    using slice_cases[of cands 0 "numAgents ?gen"]
      slice_cases[of cands "0 + numAgents ?gen" "0 + numAgents ?gen + ?n"] h c n
    by (auto simp: placeSpawns_Walls_def Let_def) blast
qed

lemma length_spawnCandidates_Walls:
  "length (spawnCandidates_Walls gen) = nat (firstWallX gen - 1) * nat (width gen - 2)"
  by (simp add: spawnCandidates_Walls_def length_concat comp_def sum_list_triv)

lemma minNumObjects_nonneg:
  "\<forall>w\<in>set ws. 1 \<le> snd w \<Longrightarrow> 0 \<le> m \<Longrightarrow> (0::int) \<le> fold (\<lambda>wall m. m + (snd wall - 1) * 2) ws m"
  by (induction ws arbitrary: m) auto

lemma placeSpawns_Walls_ok:
  assumes "0 \<le> numAgents gen" "numAgents gen \<le> int (length (spawnCandidates_Walls gen))"
    "\<forall>w\<in>set (walls gen). 1 \<le> snd w"
  shows "\<exists>res. placeSpawns_Walls gen rng = Inr res"
proof -
  obtain h r1 where h: "randRange 3 5 rng = Inr (h, r1)"
    using randRange_ok[of 3 5 rng] by auto
  let ?gen = "gen\<lparr>height := h + maxWallHeight gen\<rparr>"
  have same: "spawnCandidates_Walls ?gen = spawnCandidates_Walls gen"
    by (simp add: spawnCandidates_Walls_def)
  obtain cands r2 where c: "shuffle (spawnCandidates_Walls ?gen) r1 = (cands, r2)"
    by (cases "shuffle (spawnCandidates_Walls ?gen) r1")
  have len: "length cands = length (spawnCandidates_Walls gen)"
    using shuffle_length[of "spawnCandidates_Walls ?gen" r1] c same by simp
  let ?m = "fold (\<lambda>wall m. m + (snd wall - 1) * 2) (walls ?gen) 0"
  have m: "0 \<le> ?m" using assms(3) by (intro minNumObjects_nonneg) simp_all
  obtain n r3 where n: "randRange ?m (?m + 4) r2 = Inr (n, r3)" "?m \<le> n"
    using randRange_ok[of ?m "?m + 4" r2] by auto
  let ?n = "min n (int (length cands) - (0 + numAgents ?gen))"
  have n0: "0 \<le> ?n" using n(2) m assms(2) len by simp
  obtain a where a: "slice cands 0 (numAgents ?gen) = Inr a"
    using assms(1,2) len by (simp add: slice_def)
  have n1: "?n \<le> int (length cands) - (0 + numAgents ?gen)" by simp
  have na: "numAgents ?gen = numAgents gen" by simp
  have "0 \<le> 0 + numAgents ?gen \<and> 0 + numAgents ?gen \<le> 0 + numAgents ?gen + ?n \<and>
        0 + numAgents ?gen + ?n \<le> int (length cands)"
    using assms(1) n0 n1 unfolding na by linarith
  then obtain ob where ob: "slice cands (0 + numAgents ?gen) (0 + numAgents ?gen + ?n) = Inr ob"
    using slice_ok by blast
  show ?thesis
    using h c n(1) a ob by (simp add: placeSpawns_Walls_def Let_def)
qed

text \<open>
  Claim C5. After \<^verbatim>\<open>init\<close> of a freshly constructed Walls generator the wall x-positions
  are strictly increasing and lie between \<open>firstWallX\<close> and \<open>length - 1\<close> (excluded); no
  more walls are generated than were drawn, and the warning is logged exactly when fewer
  are. The placement of the walls never fails: the only failure of \<^verbatim>\<open>init\<close> is the
  read out of range when the agents outnumber the spawn candidates, which up to ten agents
  cannot happen.
\<close>

theorem init_Walls_walls:
  "(case init_Walls (newWalls n) rng of
      Inl e \<Rightarrow> e = OutOfRange
    | Inr (gen', rng', numWalls, warned) \<Rightarrow>
        sorted_wrt (<) (map fst (walls gen')) \<and>
        (\<forall>w\<in>set (walls gen'). firstWallX gen' \<le> fst w \<and> fst w < length' gen' - 1) \<and>
        int (length (walls gen')) \<le> numWalls \<and>
        (warned \<noteq> [] \<longleftrightarrow> int (length (walls gen')) < numWalls)) \<and>
   (0 \<le> n \<and> n \<le> 10 \<longrightarrow> (\<exists>res. init_Walls (newWalls n) rng = Inr res))"
proof -
  obtain l w h r1 where b: "init_Basic (newWalls n) rng = Inr (newWalls n\<lparr>length' := l, width := w, height := h\<rparr>, r1)"
    "7 \<le> w"
    using init_Basic_ok[of "newWalls n" rng] by auto
  let ?g1 = "newWalls n\<lparr>length' := l, width := w, height := h\<rparr>"
  have pre: "0 \<le> maxNumWalls ?g1" "maxNumWalls ?g1 \<le> 13" "1 \<le> tallestWall ?g1" "walls ?g1 = []"
    by (simp_all add: newWalls_def)
  from placeWalls_ok[OF pre, of r1] obtain g2 r2 numWalls warned where
    p: "placeWalls ?g1 r1 = Inr (g2, r2, numWalls, warned)"
      "sorted_wrt (<) (map fst (walls g2))"
      "\<forall>w\<in>set (walls g2). firstWallX g2 \<le> fst w \<and> fst w < length' g2 - 1 \<and> 1 \<le> snd w"
      "int (length (walls g2)) \<le> numWalls"
      "(warned \<noteq> [] \<longleftrightarrow> int (length (walls g2)) < numWalls)"
      "width g2 = width ?g1" "numAgents g2 = numAgents ?g1"
      "firstWallX g2 = firstWallX ?g1 \<or> 4 \<le> firstWallX g2"
    by blast
  have run: "init_Walls (newWalls n) rng =
      bindE (placeSpawns_Walls g2 r2) (\<lambda>(gen, rng). Inr (gen, rng, numWalls, warned))"
    using b(1) p(1) by (simp add: init_Walls_def)
  have part1: "case init_Walls (newWalls n) rng of
      Inl e \<Rightarrow> e = OutOfRange
    | Inr (gen', rng', numWalls, warned) \<Rightarrow>
        sorted_wrt (<) (map fst (walls gen')) \<and>
        (\<forall>w\<in>set (walls gen'). firstWallX gen' \<le> fst w \<and> fst w < length' gen' - 1) \<and>
        int (length (walls gen')) \<le> numWalls \<and>
        (warned \<noteq> [] \<longleftrightarrow> int (length (walls gen')) < numWalls)"
    using placeSpawns_Walls_cases[of g2 r2]
  proof
    assume "placeSpawns_Walls g2 r2 = Inl OutOfRange"
    then show ?thesis unfolding run by simp
  next
    assume "\<exists>h a ob rng'. placeSpawns_Walls g2 r2 =
      Inr (g2\<lparr>height := h, agentSpawnCoords := a, objectSpawnCoords := ob\<rparr>, rng')"
    then obtain h a ob rng' where "placeSpawns_Walls g2 r2 =
      Inr (g2\<lparr>height := h, agentSpawnCoords := a, objectSpawnCoords := ob\<rparr>, rng')" by blast
    then show ?thesis unfolding run using p(2-5) by simp
  qed
  have part2: "\<exists>res. init_Walls (newWalls n) rng = Inr res" if "0 \<le> n \<and> n \<le> 10"
  proof -
    have "3 \<le> firstWallX g2" using p(8) by (auto simp: newWalls_def)
    then have "2 \<le> nat (firstWallX g2 - 1)" by simp
    moreover have "5 \<le> nat (width g2 - 2)" using p(6) b(2) by simp
    ultimately have "2 * 5 \<le> nat (firstWallX g2 - 1) * nat (width g2 - 2)"
      by (rule mult_le_mono)
    then have "10 \<le> length (spawnCandidates_Walls g2)"
      by (simp add: length_spawnCandidates_Walls)
    moreover have "numAgents g2 = n" using p(7) by (simp add: newWalls_def)
    ultimately have c: "numAgents g2 \<le> int (length (spawnCandidates_Walls g2))"
      using that by linarith
    have a: "0 \<le> numAgents g2" using that p(7) by (simp add: newWalls_def)
    have hs: "\<forall>w\<in>set (walls g2). 1 \<le> snd w" using p(3) by simp
    from placeSpawns_Walls_ok[OF a c hs, of r2] obtain res where
      "placeSpawns_Walls g2 r2 = Inr res" by blast
    then show ?thesis unfolding run by (cases res) simp
  qed
  from part1 part2 show ?thesis by blast
qed

lemma init_Walls_parts:
  assumes "init_Walls gen rng = Inr (gen', rng', numWalls, warned)"
  shows "\<exists>g1 r1 g2 r2. init_Basic gen rng = Inr (g1, r1) \<and>
           placeWalls g1 r1 = Inr (g2, r2, numWalls, warned) \<and>
           walls gen' = walls g2 \<and> firstWallX gen' = firstWallX g2 \<and> length' gen' = length' g2"
proof -
  obtain g1 r1 where b: "init_Basic gen rng = Inr (g1, r1)"
    using assms by (cases "init_Basic gen rng") (auto simp: init_Walls_def)
  obtain g2 r2 nw wd where p: "placeWalls g1 r1 = Inr (g2, r2, nw, wd)"
    using assms b by (cases "placeWalls g1 r1") (auto simp: init_Walls_def)
  from placeSpawns_Walls_cases[of g2 r2] assms b p show ?thesis
    by (auto simp: init_Walls_def)
qed

theorem init_Walls_walls_witness:
  "\<exists>gen' rng' warned. init_Walls (newWalls 2) wallsTape = Inr (gen', rng', 2, warned) \<and>
     walls gen' = [(5, 2), (9, 3)] \<and> firstWallX gen' = 5 \<and> length' gen' = 14 \<and>
     sorted_wrt (<) (map fst (walls gen')) \<and> warned = []"
proof -
  from init_Walls_walls[of 2 wallsTape] obtain gen' rng' numWalls warned where
    run: "init_Walls (newWalls 2) wallsTape = Inr (gen', rng', numWalls, warned)"
    by auto
  with init_Walls_walls[of 2 wallsTape] have
    props: "sorted_wrt (<) (map fst (walls gen'))"
      "(warned \<noteq> [] \<longleftrightarrow> int (length (walls gen')) < numWalls)"
    by auto
  from init_Walls_parts[OF run] obtain g1 r1 g2 r2 where
    parts: "init_Basic (newWalls 2) wallsTape = Inr (g1, r1)"
      "placeWalls g1 r1 = Inr (g2, r2, numWalls, warned)"
      "walls gen' = walls g2" "firstWallX gen' = firstWallX g2" "length' gen' = length' g2"
    by blast
  have g1: "g1 = newWalls 2\<lparr>length' := 8, width := 7, height := 3\<rparr>"
    "r1 = tapeOf [2, 3, 1, 1, 2, 3, 1]"
    using parts(1)
    by (simp_all add: init_Basic_def init_GridLayoutImpl_def wallsTape_def randRange_def)
  have "walls g2 = [(5, 2), (9, 3)] \<and> firstWallX g2 = 5 \<and> length' g2 = 14 \<and> numWalls = 2"
    using parts(2) unfolding g1
    by (auto simp: placeWalls_def newWalls_def randRange_def Let_def)
  with run props parts(3-5) show ?thesis by auto
qed

text \<open>
  After the draws of \<^verbatim>\<open>init\<close> there is always room for the next wall: the branch that
  logs the warning is never taken.
\<close>

lemma placeNextWalls_room:
  assumes "1 \<le> tallestWall gen" "is = [i..numWalls - 1]"
    "prevWallX \<le> length' gen - 2 * numWalls + 2 * i - 4"
  shows "\<exists>gen' rng'. placeNextWalls numWalls is prevWallX gen rng = Inr (gen', rng', []) \<and>
           length (walls gen') = length (walls gen) + length is"
  using assms
proof (induction "is" arbitrary: i prevWallX gen rng)
  case Nil
  show ?case by simp
next
  case (Cons j js)
  have i: "i \<le> numWalls - 1" using Cons.prems(2) by (cases "i \<le> numWalls - 1") simp_all
  have jj: "j = i" "js = [i + 1..numWalls - 1]"
    using Cons.prems(2) i by (simp_all add: upto_rec1)
  obtain wallHeight r1 where h: "randRange 1 (tallestWall gen + 1) rng = Inr (wallHeight, r1)"
    using randRange_ok[of 1 "tallestWall gen + 1" rng] Cons.prems(1) by auto
  let ?rs = "3 + (numWalls - i - 1) * 2"
  have room: "\<not> prevWallX + 1 \<ge> length' gen - ?rs" using Cons.prems(3) by simp
  then obtain wallX r2 where x: "randRange (prevWallX + 1) (length' gen - ?rs) r1 = Inr (wallX, r2)"
    "wallX < length' gen - ?rs"
    using randRange_ok[of "prevWallX + 1" "length' gen - ?rs" r1] by auto
  let ?gen = "gen\<lparr>walls := walls gen @ [(wallX, wallHeight)],
                   maxWallHeight := max (maxWallHeight gen) wallHeight,
                   maxWallX := max (maxWallX gen) wallX\<rparr>"
  have p1: "1 \<le> tallestWall ?gen" using Cons.prems(1) by simp
  have p3: "wallX \<le> length' ?gen - 2 * numWalls + 2 * (i + 1) - 4" using x(2) by simp
  from Cons.IH[OF p1 jj(2) p3, of r2] obtain gen' rng' where
    r: "placeNextWalls numWalls js wallX ?gen r2 = Inr (gen', rng', [])"
      "length (walls gen') = length (walls ?gen) + length js"
    by blast
  have "placeNextWalls numWalls (j # js) prevWallX gen rng = Inr (gen', rng', [])"
    using h x(1) room r(1) jj(1) by (simp add: Let_def)
  then show ?case using r(2) by auto
qed

lemma placeWalls_never_warns:
  assumes "0 \<le> maxNumWalls gen" "maxNumWalls gen \<le> 13" "1 \<le> tallestWall gen" "walls gen = []"
  shows "\<exists>gen' rng' numWalls. placeWalls gen rng = Inr (gen', rng', numWalls, []) \<and>
           int (length (walls gen')) = numWalls"
proof -
  obtain numWalls r1 where n: "randRange 0 (maxNumWalls gen + 1) rng = Inr (numWalls, r1)"
    "0 \<le> numWalls" "numWalls < maxNumWalls gen + 1"
    using randRange_ok[of 0 "maxNumWalls gen + 1" rng] assms(1) by auto
  let ?minLength = "numWalls * 2 + 4 + 3"
  obtain l r2 where l: "randRange ?minLength 35 r1 = Inr (l, r2)" "?minLength \<le> l"
    using randRange_ok[of ?minLength 35 r1] n(3) assms(2) by auto
  let ?g0 = "gen\<lparr>length' := l\<rparr>"
  show ?thesis
  proof (cases "numWalls \<le> 0")
    case True
    then have "placeWalls gen rng = Inr (?g0, r2, numWalls, [])"
      using n l by (simp add: placeWalls_def Let_def)
    then show ?thesis using assms(4) True n(2) by auto
  next
    case False
    obtain fwx r3 where f: "randRange 4 (4 + 1 + l - ?minLength) r2 = Inr (fwx, r3)"
      "fwx < 4 + 1 + l - ?minLength"
      using randRange_ok[of 4 "4 + 1 + l - ?minLength" r2] l(2) by auto
    obtain fh r4 where h: "randRange 1 (tallestWall gen + 1) r3 = Inr (fh, r4)"
      using randRange_ok[of 1 "tallestWall gen + 1" r3] assms(3) by auto
    let ?g1 = "?g0\<lparr>firstWallX := fwx, maxWallX := fwx, maxWallHeight := fh,
                    walls := walls ?g0 @ [(fwx, fh)]\<rparr>"
    have p1: "1 \<le> tallestWall ?g1" using assms(3) by simp
    have p3: "fwx \<le> length' ?g1 - 2 * numWalls + 2 * 1 - 4" using f(2) by simp
    from placeNextWalls_room[OF p1 refl p3, of r4] obtain gen' rng' where
      r: "placeNextWalls numWalls [1..numWalls - 1] fwx ?g1 r4 = Inr (gen', rng', [])"
        "length (walls gen') = length (walls ?g1) + length [1..numWalls - 1]"
      by blast
    have "placeWalls gen rng = Inr (gen', rng', numWalls, [])"
      using n l f(1) h False r(1) by (simp add: placeWalls_def Let_def)
    moreover have "int (length (walls gen')) = numWalls"
      using r(2) False assms(4) by simp
    ultimately show ?thesis by blast
  qed
qed

section \<open>The Cave generator: flood fill, free voxels and the exit pad\<close>

lemma placeSeeds_ok:
  assumes "5 \<le> length' gen" "5 \<le> width gen"
  shows "\<exists>q' cave' rng'. placeSeeds gen k q cave rng = Inr (q', cave', rng') \<and>
           set cave \<subseteq> set cave' \<and>
           (\<forall>c\<in>set cave' - set cave. vy c = caveHeight gen \<and> 2 \<le> vx c \<and> vx c < length' gen - 2 \<and>
              2 \<le> vz c \<and> vz c < width gen - 2) \<and>
           (distinct cave \<longrightarrow> distinct cave')"
proof (induction k arbitrary: q cave rng)
  case 0
  show ?case by simp
next
  case (Suc k)
  obtain x r1 where x: "randRange 2 (length' gen - 2) rng = Inr (x, r1)" "2 \<le> x" "x < length' gen - 2"
    using randRange_ok[of 2 "length' gen - 2" rng] assms(1) by auto
  obtain z r2 where z: "randRange 2 (width gen - 2) r1 = Inr (z, r2)" "2 \<le> z" "z < width gen - 2"
    using randRange_ok[of 2 "width gen - 2" r1] assms(2) by auto
  let ?c = "VoxelCoords x (caveHeight gen) z"
  from Suc.IH[of "q @ [?c]" "emplace ?c cave" r2] obtain q' cave' rng' where
    rec: "placeSeeds gen k (q @ [?c]) (emplace ?c cave) r2 = Inr (q', cave', rng')"
      "set (emplace ?c cave) \<subseteq> set cave'"
      "\<forall>c\<in>set cave' - set (emplace ?c cave). vy c = caveHeight gen \<and> 2 \<le> vx c \<and> vx c < length' gen - 2 \<and>
              2 \<le> vz c \<and> vz c < width gen - 2"
      "distinct (emplace ?c cave) \<longrightarrow> distinct cave'"
    by blast
  have e: "set (emplace ?c cave) = insert ?c (set cave)" "distinct cave \<longrightarrow> distinct (emplace ?c cave)"
    by (auto simp: emplace_def)
  have run: "placeSeeds gen (Suc k) q cave rng = Inr (q', cave', rng')"
    using x(1) z(1) rec(1) by simp
  have b: "\<forall>c\<in>set cave' - set cave. vy c = caveHeight gen \<and> 2 \<le> vx c \<and> vx c < length' gen - 2 \<and>
              2 \<le> vz c \<and> vz c < width gen - 2"
  proof
    fix c assume c: "c \<in> set cave' - set cave"
    show "vy c = caveHeight gen \<and> 2 \<le> vx c \<and> vx c < length' gen - 2 \<and> 2 \<le> vz c \<and> vz c < width gen - 2"
    proof (cases "c = ?c")
      case True
      then show ?thesis using x(2,3) z(2,3) by simp
    next
      case False
      with c e(1) have "c \<in> set cave' - set (emplace ?c cave)" by simp
      with rec(3) show ?thesis by blast
    qed
  qed
  show ?case
    using run rec(2,4) e b by (intro exI[of _ q'] exI[of _ cave'] exI[of _ rng']) auto
qed

lemma growCave_grows:
  "\<exists>new rng'. growCave gen q cave gp rng = (cave @ new, gp * 0.995 ^ length new, rng') \<and>
     set new \<subseteq> caveBox gen \<and> set new \<inter> set cave = {} \<and> distinct new"
proof (induction gen q cave gp rng rule: growCave.induct)
  case (1 gen cave growthProb rng)
  show ?case by (intro exI[of _ "[]"] exI[of _ rng]) simp
next
  case (2 gen current q cave growthProb rng)
  from tryNeighbours_steps[of gen current signedDirections q cave growthProb rng] obtain new r where
    n: "fold (tryNeighbour gen current) signedDirections (q, cave, growthProb, rng) =
          (q @ new, cave @ new, growthProb * 0.995 ^ length new, r)"
      "set new \<subseteq> caveBox gen" "set new \<inter> set cave = {}" "distinct new"
    by blast
  from "2.IH"[OF n(1)[symmetric] refl refl] obtain new2 rng' where
    r: "growCave gen (q @ new) (cave @ new) (growthProb * 0.995 ^ length new) r =
          ((cave @ new) @ new2, growthProb * 0.995 ^ length new * 0.995 ^ length new2, rng')"
      "set new2 \<subseteq> caveBox gen" "set new2 \<inter> set (cave @ new) = {}" "distinct new2"
    by blast
  have run: "growCave gen (current # q) cave growthProb rng =
      (cave @ (new @ new2), growthProb * 0.995 ^ length (new @ new2), rng')"
    using n(1) r(1) by (simp add: power_add)
  show ?case
    using run n(2-4) r(2-4) by (intro exI[of _ "new @ new2"] exI[of _ rng']) auto
qed

text \<open>
  Claim C7. With a cave height of at least 1 and room for the seeds (length and width of
  at least 5; \<^verbatim>\<open>init\<close> draws a cave height of at least 2, a length of at least 8 and a
  width of at least 7), the flood fill returns, every cell of the cave set (the seed cells
  and the accepted neighbours) is within the bounds, and the final growth probability is
  0.8 times 0.995 to the number of accepted neighbours. Floating-point numbers are
  idealised as reals.
\<close>

theorem floodFill_bounds:
  assumes "1 \<le> caveHeight gen" "5 \<le> length' gen" "5 \<le> width gen"
  shows "\<exists>q0 cave0 r0 cave growthProb rng'.
           placeSeeds gen (nat (numSeeds gen)) [] [] rng = Inr (q0, cave0, r0) \<and>
           floodFill gen rng = Inr (cave, growthProb, rng') \<and>
           (\<forall>c\<in>set cave. 1 \<le> vy c \<and> vy c \<le> caveHeight gen \<and> 2 \<le> vx c \<and> vx c < length' gen - 2 \<and>
              1 \<le> vz c \<and> vz c \<le> width gen - 1) \<and>
           set cave0 \<subseteq> set cave \<and> distinct cave \<and>
           growthProb = 0.8 * 0.995 ^ (length cave - length cave0)"
proof -
  from placeSeeds_ok[OF assms(2,3), of "nat (numSeeds gen)" "[]" "[]" rng] obtain q0 cave0 r0 where
    s: "placeSeeds gen (nat (numSeeds gen)) [] [] rng = Inr (q0, cave0, r0)"
      "\<forall>c\<in>set cave0 - set []. vy c = caveHeight gen \<and> 2 \<le> vx c \<and> vx c < length' gen - 2 \<and>
              2 \<le> vz c \<and> vz c < width gen - 2"
      "distinct cave0"
    by auto
  from growCave_grows[of gen q0 cave0 "0.8" r0] obtain new rng' where
    g: "growCave gen q0 cave0 0.8 r0 = (cave0 @ new, 0.8 * 0.995 ^ length new, rng')"
      "set new \<subseteq> caveBox gen" "set new \<inter> set cave0 = {}" "distinct new"
    by blast
  have run: "floodFill gen rng = Inr (cave0 @ new, 0.8 * 0.995 ^ length new, rng')"
    using s(1) g(1) by (simp add: floodFill_def)
  have seeds: "\<forall>c\<in>set cave0. c \<in> caveBox gen"
    using s(2) assms(1) by (auto simp: caveBox_def)
  have bounds: "\<forall>c\<in>set (cave0 @ new). 1 \<le> vy c \<and> vy c \<le> caveHeight gen \<and> 2 \<le> vx c \<and>
      vx c < length' gen - 2 \<and> 1 \<le> vz c \<and> vz c \<le> width gen - 1"
    using seeds g(2) by (auto simp: caveBox_def)
  show ?thesis
    using s(1,3) run bounds g(3,4)
    by (intro exI[of _ q0] exI[of _ cave0] exI[of _ r0] exI[of _ "cave0 @ new"]
          exI[of _ "0.8 * 0.995 ^ length new"] exI[of _ rng']) auto
qed

lemma placeSeeds_example:
  "placeSeeds caveExample (nat (numSeeds caveExample)) [] [] (tapeOf []) =
     Inr ([VoxelCoords 2 2 2, VoxelCoords 2 2 2], [VoxelCoords 2 2 2], tapeOf [])"
  by (simp add: caveExample_def newCave_def numSeeds_def signed_divide_int_def randRange_def
      emplace_def numeral_2_eq_2)

theorem floodFill_bounds_witness:
  "1 \<le> caveHeight caveExample \<and> 5 \<le> length' caveExample \<and> 5 \<le> width caveExample \<and>
   (\<exists>cave growthProb rng'. floodFill caveExample (tapeOf []) = Inr (cave, growthProb, rng') \<and>
      VoxelCoords 2 2 2 \<in> set cave \<and> growthProb = 0.8 * 0.995 ^ (length cave - 1))"
proof -
  have h: "1 \<le> caveHeight caveExample" "5 \<le> length' caveExample" "5 \<le> width caveExample"
    by (simp_all add: caveExample_def newCave_def)
  from floodFill_bounds[OF h, of "tapeOf []"] placeSeeds_example h show ?thesis
    by auto
qed

lemma firstStandable_below:
  "c \<in> set (firstStandable grid x z ys) \<Longrightarrow> isSolid grid (VoxelCoords (vx c) (vy c - 1) (vz c))"
  by (induction ys) (auto split: if_splits)

lemma getFreeVoxels_below:
  "c \<in> set (getFreeVoxels grid len wid startY) \<Longrightarrow>
   isSolid grid (VoxelCoords (vx c) (vy c - 1) (vz c))"
  by (auto simp: getFreeVoxels_def dest: firstStandable_below)

lemma floodFill_ok:
  assumes "5 \<le> length' gen" "5 \<le> width gen"
  shows "\<exists>res. floodFill gen rng = Inr res"
proof -
  from placeSeeds_ok[OF assms, of "nat (numSeeds gen)" "[]" "[]" rng] obtain q0 cave0 r0 where
    "placeSeeds gen (nat (numSeeds gen)) [] [] rng = Inr (q0, cave0, r0)" by blast
  then show ?thesis by (simp add: floodFill_def)  (metis prod_cases3)
qed

text \<open>
  Claim C6. With room for the seeds (length and width of at least 5, which \<^verbatim>\<open>init\<close>
  guarantees), \<open>generate_Cave\<close> returns, and every coordinate of the free-voxel list it
  stores has a solid voxel directly below it in the grid it returns.
\<close>

theorem generate_Cave_freeVoxels:
  assumes "5 \<le> length' gen" "5 \<le> width gen"
  shows "\<exists>gen' grid' rng'. generate_Cave gen grid rng = Some (Inr (gen', grid', rng')) \<and>
           (\<forall>c\<in>set (freeVoxels gen'). isSolid grid' (VoxelCoords (vx c) (vy c - 1) (vz c)))"
proof -
  have "2 \<le> length' gen" "2 \<le> width gen" using assms by simp_all
  from generate_Basic_get[OF this, of grid] obtain g1 where
    b: "generate_Basic gen grid = Some g1" by blast
  from floodFill_ok[OF assms, of rng] obtain cave gp r1 where
    f: "floodFill gen rng = Inr (cave, gp, r1)" by (metis prod_cases3)
  let ?g = "caveWalls gen cave (topSurface gen cave g1)"
  let ?fv = "getFreeVoxels ?g (length' gen) (width gen) (caveHeight gen + 1)"
  obtain fv r2 where sh: "shuffle ?fv r1 = (fv, r2)" by (cases "shuffle ?fv r1")
  have run: "generate_Cave gen grid rng = Some (Inr (gen\<lparr>freeVoxels := fv\<rparr>, ?g, r2))"
    using b f sh by (simp add: generate_Cave_def Let_def)
  have "set fv = set ?fv" using shuffle_set[of ?fv r1] sh by simp
  then have "\<forall>c\<in>set (freeVoxels (gen\<lparr>freeVoxels := fv\<rparr>)). isSolid ?g (VoxelCoords (vx c) (vy c - 1) (vz c))"
    using getFreeVoxels_below by auto
  with run show ?thesis by blast
qed

theorem generate_Cave_freeVoxels_witness:
  "5 \<le> length' smallCave \<and> 5 \<le> width smallCave \<and>
   (\<exists>gen' grid' rng'. generate_Cave smallCave [] (tapeOf []) = Some (Inr (gen', grid', rng')) \<and>
      list_all (\<lambda>c. isSolid grid' (VoxelCoords (vx c) (vy c - 1) (vz c))) (freeVoxels gen'))"
proof -
  have h: "5 \<le> length' smallCave" "5 \<le> width smallCave"
    by (simp_all add: smallCave_def newCave_def)
  from generate_Cave_freeVoxels[OF h, of "[]" "tapeOf []"] h show ?thesis
    by (auto simp: list_all_iff)
qed

lemma padFits_iff:
  "padFits grid w v \<longleftrightarrow>
     (\<forall>z. vz v \<le> z \<and> z < vz v + w \<longrightarrow> \<not> isSolid grid (VoxelCoords (vx v) (vy v) z))"
  by (auto simp: padFits_def list_all_iff)

lemma scanExit_none:
  "(\<forall>j<i. \<not> padFits grid w (fv ! j)) \<Longrightarrow>
   scanExit grid w fv i = \<lparr>bmin = VoxelCoords 1 1 1, bmax = VoxelCoords 2 2 2\<rparr>"
  by (induction i) simp_all

lemma scanExit_found:
  "j < i \<Longrightarrow> padFits grid w (fv ! j) \<Longrightarrow> (\<forall>k. j < k \<and> k < i \<longrightarrow> \<not> padFits grid w (fv ! k)) \<Longrightarrow>
   scanExit grid w fv i =
     \<lparr>bmin = fv ! j, bmax = VoxelCoords (vx (fv ! j) + 1) (vy (fv ! j) + 1) (vz (fv ! j) + w)\<rparr>"
proof (induction i)
  case 0
  then show ?case by simp
next
  case (Suc i)
  show ?case
  proof (cases "j = i")
    case True
    then show ?thesis using Suc.prems(2) by simp
  next
    case False
    then have "j < i" using Suc.prems(1) by simp
    moreover have "\<not> padFits grid w (fv ! i)" using Suc.prems(3) \<open>j < i\<close> by simp
    ultimately show ?thesis using Suc.IH Suc.prems(2,3) by simp
  qed
qed

text \<open>
  Claim C9. When the assertion on the width holds (\<^verbatim>\<open>init\<close> draws a width of at least 7),
  \<open>levelExit_Cave\<close> returns the pad at the last entry of the free-voxel list at which
  \<open>exitPadWidth = min 3 numAgents\<close> consecutive cells along z are all non-solid, and the box
  with corners (1,1,1) and (2,2,2) when the list has no such entry.
\<close>

theorem levelExit_Cave_scan:
  assumes "min 3 (numAgents gen) \<le> width gen - 2"
  shows "(\<forall>j < length (freeVoxels gen).
            (\<forall>z. vz (freeVoxels gen ! j) \<le> z \<and> z < vz (freeVoxels gen ! j) + min 3 (numAgents gen) \<longrightarrow>
               \<not> isSolid grid (VoxelCoords (vx (freeVoxels gen ! j)) (vy (freeVoxels gen ! j)) z)) \<and>
            (\<forall>k. j < k \<and> k < length (freeVoxels gen) \<longrightarrow>
               (\<exists>z. vz (freeVoxels gen ! k) \<le> z \<and> z < vz (freeVoxels gen ! k) + min 3 (numAgents gen) \<and>
                  isSolid grid (VoxelCoords (vx (freeVoxels gen ! k)) (vy (freeVoxels gen ! k)) z))) \<longrightarrow>
            levelExit_Cave gen grid =
              Inr \<lparr>bmin = freeVoxels gen ! j,
                   bmax = VoxelCoords (vx (freeVoxels gen ! j) + 1) (vy (freeVoxels gen ! j) + 1)
                            (vz (freeVoxels gen ! j) + min 3 (numAgents gen))\<rparr>) \<and>
         ((\<forall>j < length (freeVoxels gen).
            \<exists>z. vz (freeVoxels gen ! j) \<le> z \<and> z < vz (freeVoxels gen ! j) + min 3 (numAgents gen) \<and>
               isSolid grid (VoxelCoords (vx (freeVoxels gen ! j)) (vy (freeVoxels gen ! j)) z)) \<longrightarrow>
          levelExit_Cave gen grid = Inr \<lparr>bmin = VoxelCoords 1 1 1, bmax = VoxelCoords 2 2 2\<rparr>)"
proof -
  let ?w = "min 3 (numAgents gen)" and ?fv = "freeVoxels gen"
  have run: "levelExit_Cave gen grid = Inr (scanExit grid ?w ?fv (length ?fv))"
    using assms by (simp add: levelExit_Cave_def Let_def)
  have found: "levelExit_Cave gen grid =
      Inr \<lparr>bmin = ?fv ! j, bmax = VoxelCoords (vx (?fv ! j) + 1) (vy (?fv ! j) + 1) (vz (?fv ! j) + ?w)\<rparr>"
    if "j < length ?fv" "padFits grid ?w (?fv ! j)"
      "\<forall>k. j < k \<and> k < length ?fv \<longrightarrow> \<not> padFits grid ?w (?fv ! k)" for j
    unfolding run using scanExit_found[OF that] by simp
  have none: "levelExit_Cave gen grid = Inr \<lparr>bmin = VoxelCoords 1 1 1, bmax = VoxelCoords 2 2 2\<rparr>"
    if "\<forall>j<length ?fv. \<not> padFits grid ?w (?fv ! j)"
    unfolding run using scanExit_none[OF that] by simp
  show ?thesis
  proof (intro conjI allI impI)
    fix j
    assume "j < length ?fv"
      and "(\<forall>z. vz (?fv ! j) \<le> z \<and> z < vz (?fv ! j) + ?w \<longrightarrow>
               \<not> isSolid grid (VoxelCoords (vx (?fv ! j)) (vy (?fv ! j)) z)) \<and>
            (\<forall>k. j < k \<and> k < length ?fv \<longrightarrow>
               (\<exists>z. vz (?fv ! k) \<le> z \<and> z < vz (?fv ! k) + ?w \<and>
                  isSolid grid (VoxelCoords (vx (?fv ! k)) (vy (?fv ! k)) z)))"
    then show "levelExit_Cave gen grid =
      Inr \<lparr>bmin = ?fv ! j, bmax = VoxelCoords (vx (?fv ! j) + 1) (vy (?fv ! j) + 1) (vz (?fv ! j) + ?w)\<rparr>"
      by (intro found) (auto simp: padFits_iff)
  next
    assume "\<forall>j < length ?fv.
            \<exists>z. vz (?fv ! j) \<le> z \<and> z < vz (?fv ! j) + ?w \<and>
               isSolid grid (VoxelCoords (vx (?fv ! j)) (vy (?fv ! j)) z)"
    then show "levelExit_Cave gen grid = Inr \<lparr>bmin = VoxelCoords 1 1 1, bmax = VoxelCoords 2 2 2\<rparr>"
      by (intro none) (auto simp: padFits_iff)
  qed
qed

theorem levelExit_Cave_scan_witness:
  "min 3 (numAgents exitExample) \<le> width exitExample - 2 \<and>
   levelExit_Cave exitExample exitGrid = Inr \<lparr>bmin = VoxelCoords 2 1 2, bmax = VoxelCoords 3 2 4\<rparr> \<and>
   levelExit_Cave (exitExample\<lparr>freeVoxels := [VoxelCoords 3 1 3]\<rparr>) exitGrid =
     Inr \<lparr>bmin = VoxelCoords 1 1 1, bmax = VoxelCoords 2 2 2\<rparr>"
proof -
  have h: "min 3 (numAgents exitExample) \<le> width exitExample - 2"
    by (simp add: exitExample_def newCave_def)
  have h': "min 3 (numAgents (exitExample\<lparr>freeVoxels := [VoxelCoords 3 1 3]\<rparr>))
            \<le> width (exitExample\<lparr>freeVoxels := [VoxelCoords 3 1 3]\<rparr>) - 2"
    by (simp add: exitExample_def newCave_def)
  have fv: "freeVoxels exitExample = [VoxelCoords 2 1 2, VoxelCoords 3 1 3]"
    "numAgents exitExample = 2"
    by (simp_all add: exitExample_def newCave_def)
  have free: "\<And>z. \<not> isSolid exitGrid (VoxelCoords 2 1 z)"
    by (simp add: isSolid_def grid_get_def exitGrid_def)
  have blocked: "isSolid exitGrid (VoxelCoords 3 1 4)"
    by (simp add: isSolid_def grid_get_def exitGrid_def solidVoxel_def)
  have blockedEx: "\<exists>z\<ge>3. z < 5 \<and> isSolid exitGrid (VoxelCoords 3 1 z)"
    using blocked by (intro exI[of _ 4]) simp
  have first: "levelExit_Cave exitExample exitGrid =
      Inr \<lparr>bmin = VoxelCoords 2 1 2, bmax = VoxelCoords 3 2 4\<rparr>"
    using levelExit_Cave_scan[OF h, of exitGrid, THEN conjunct1, rule_format, of 0]
      free blockedEx
    by (auto simp: fv)
  have none: "levelExit_Cave (exitExample\<lparr>freeVoxels := [VoxelCoords 3 1 3]\<rparr>) exitGrid =
      Inr \<lparr>bmin = VoxelCoords 1 1 1, bmax = VoxelCoords 2 2 2\<rparr>"
    using levelExit_Cave_scan[OF h', of exitGrid, THEN conjunct2, rule_format] blockedEx
    by (auto simp: fv)
  from h first none show ?thesis by simp
qed


section \<open>The Tower generator: starting positions\<close>

lemma padAgents_eq:
  "agents \<noteq> [] \<Longrightarrow>
   padAgents n agents = Inr (agents @ replicate (nat (n - int (length agents))) (hd agents))"
proof (induction n agents rule: padAgents.induct)
  case (1 n agents)
  show ?case
  proof (cases "int (length agents) < n")
    case False
    then show ?thesis by (subst padAgents.simps) simp
  next
    case True
    obtain c cs where a: "agents = c # cs" using "1.prems" by (cases agents) auto
    have "nat (n - int (length agents)) = Suc (nat (n - int (length (agents @ [c]))))"
      using True by simp
    then have "agents @ replicate (nat (n - int (length agents))) c =
               (agents @ [c]) @ replicate (nat (n - int (length (agents @ [c])))) c"
      by (simp add: replicate_append_same)
    moreover have "padAgents n (agents @ [c]) =
        Inr ((agents @ [c]) @ replicate (nat (n - int (length (agents @ [c])))) (hd (agents @ [c])))"
      using "1.IH"[OF True a] by simp
    ultimately show ?thesis using True a by (subst padAgents.simps) simp
  qed
qed

lemma drawSizes_Tower_ok:
  "\<exists>gen' rng'. drawSizes_Tower gen rng = Inr (gen', rng') \<and>
     12 \<le> length' gen' \<and> 12 \<le> width gen' \<and> numAgents gen' = numAgents gen"
proof -
  obtain h r1 where h: "randRange 5 7 rng = Inr (h, r1)"
    using randRange_ok[of 5 7 rng] by auto
  obtain l r2 where l: "randRange 12 30 r1 = Inr (l, r2)" "12 \<le> l"
    using randRange_ok[of 12 30 r1] by auto
  obtain w r3 where w: "randRange 12 25 r2 = Inr (w, r3)" "12 \<le> w"
    using randRange_ok[of 12 25 r2] by auto
  obtain bzl r4 where bzl: "randRange 3 9 r3 = Inr (bzl, r4)" "3 \<le> bzl"
    using randRange_ok[of 3 9 r3] by auto
  obtain bzw r5 where bzw: "randRange 3 9 r4 = Inr (bzw, r5)" "3 \<le> bzw"
    using randRange_ok[of 3 9 r4] by auto
  obtain ml r6 where ml: "randRange 2 8 r5 = Inr (ml, r6)" "2 \<le> ml"
    using randRange_ok[of 2 8 r5] by auto
  obtain mw r7 where mw: "randRange 2 8 r6 = Inr (mw, r7)" "2 \<le> mw"
    using randRange_ok[of 2 8 r6] by auto
  let ?l = "max (bzl + ml + 3) l" and ?w = "max (bzw + mw + 3) w"
  have rl: "1 < ?l - bzl - 1" "1 < ?l - ml - 1" using ml(2) bzl(2) by linarith+
  have rw: "1 < ?w - bzw - 1" "1 < ?w - mw - 1" using mw(2) bzw(2) by linarith+
  obtain bzx r8 where bzx: "randRange 1 (?l - bzl - 1) r7 = Inr (bzx, r8)"
    using randRange_ok[OF rl(1), of r7] by blast
  obtain bzz r9 where bzz: "randRange 1 (?w - bzw - 1) r8 = Inr (bzz, r9)"
    using randRange_ok[OF rw(1), of r8] by blast
  obtain mx r10 where mx: "randRange 1 (?l - ml - 1) r9 = Inr (mx, r10)"
    using randRange_ok[OF rl(2), of r9] by blast
  obtain mz r11 where mz: "randRange 1 (?w - mw - 1) r10 = Inr (mz, r11)"
    using randRange_ok[OF rw(2), of r10] by blast
  have "12 \<le> ?l" "12 \<le> ?w" using l(2) w(2) by linarith+
  then show ?thesis
    using h l(1) w(1) bzl(1) bzw(1) ml(1) mw(1) bzx bzz mx mz
    by (simp add: drawSizes_Tower_def Let_def)
qed

lemma length_spawnCandidates_Tower:
  "length (spawnCandidates_Tower gen) = nat (length' gen - 2) * nat (width gen - 2)"
  by (simp add: spawnCandidates_Tower_def length_concat comp_def sum_list_triv)

lemma set_spawnCandidates_Tower:
  "set (spawnCandidates_Tower gen) =
     {c. 1 \<le> vx c \<and> vx c < length' gen - 1 \<and> vy c = 2 \<and> 1 \<le> vz c \<and> vz c < width gen - 1}"
proof -
  have "c \<in> set (spawnCandidates_Tower gen) \<longleftrightarrow>
        1 \<le> vx c \<and> vx c < length' gen - 1 \<and> vy c = 2 \<and> 1 \<le> vz c \<and> vz c < width gen - 1" for c
    unfolding spawnCandidates_Tower_def in_cells_xz by auto
  then show ?thesis by blast
qed

text \<open>The agents' positions after the second part of \<open>init_Tower\<close>.\<close>

lemma placeSpawns_Tower_agents:
  assumes "1 \<le> numAgents gen" "spawnCandidates_Tower gen \<noteq> []"
  shows "\<exists>gen' rng'. placeSpawns_Tower gen rng = Inr (gen', rng') \<and>
           length' gen' = length' gen \<and> width gen' = width gen \<and> numAgents gen' = numAgents gen \<and>
           towerAgentSpawnCoords gen' =
             take (nat (min (numAgents gen) (int (length (spawnCandidates_Tower gen)))))
               (fst (shuffle (spawnCandidates_Tower gen) rng)) @
             replicate (nat (numAgents gen - min (numAgents gen) (int (length (spawnCandidates_Tower gen)))))
               (fst (shuffle (spawnCandidates_Tower gen) rng) ! 0)"
proof -
  obtain cands r1 where c: "shuffle (spawnCandidates_Tower gen) rng = (cands, r1)"
    by (cases "shuffle (spawnCandidates_Tower gen) rng")
  have len: "length cands = length (spawnCandidates_Tower gen)"
    using shuffle_length[of "spawnCandidates_Tower gen" rng] c by simp
  have ne: "cands \<noteq> []" using len assms(2) by auto
  let ?k = "min (numAgents gen) (int (length cands))"
  have k: "1 \<le> ?k" "?k \<le> int (length cands)" using assms(1) ne by (auto simp: Suc_le_eq)
  have a: "slice cands 0 ?k = Inr (take (nat ?k) cands)"
    using slice_ok[of 0 ?k cands] k by simp
  let ?agents = "take (nat ?k) cands"
  have la: "int (length ?agents) = ?k" using k by simp
  have ane: "?agents \<noteq> []" using k ne by auto
  let ?m = "min (int (length cands) - numAgents gen) 25"
  have "0 < max 1 ?m" by simp
  from randRange_ok[OF this, of r1]
  obtain so r2 where so: "randRange 0 (max 1 ?m) r1 = Inr (so, r2)" "0 \<le> so" "so < max 1 ?m"
    by blast
  have "0 \<le> ?k \<and> ?k \<le> ?k + so \<and> ?k + so \<le> int (length cands)"
    using so(2,3) k by (auto simp: max_def min_def split: if_splits)
  from slice_ok[OF this] obtain objects where ob: "slice cands ?k (?k + so) = Inr objects"
    by blast
  have pad: "padAgents (numAgents gen) ?agents =
      Inr (?agents @ replicate (nat (numAgents gen - ?k)) (cands ! 0))"
    using padAgents_eq[OF ane, of "numAgents gen"] la k ne
    by (simp add: hd_conv_nth)
  show ?thesis
    using c a so(1) ob pad la len
    by (simp add: placeSpawns_Tower_def Let_def)
qed

lemma init_Tower_agents:
  assumes "1 \<le> n"
  shows "\<exists>gen' rng' sized r1. drawSizes_Tower (newTower n) rng = Inr (sized, r1) \<and>
     init_Tower (newTower n) rng = Inr (gen', rng') \<and>
     length' gen' = length' sized \<and> width gen' = width sized \<and>
     12 \<le> length' gen' \<and> 12 \<le> width gen' \<and>
     towerAgentSpawnCoords gen' =
       take (nat (min n (int (length (spawnCandidates_Tower gen')))))
         (fst (shuffle (spawnCandidates_Tower gen') r1)) @
       replicate (nat (n - min n (int (length (spawnCandidates_Tower gen')))))
         (fst (shuffle (spawnCandidates_Tower gen') r1) ! 0)"
proof -
  from drawSizes_Tower_ok[of "newTower n" rng] obtain sized r1 where
    d: "drawSizes_Tower (newTower n) rng = Inr (sized, r1)" "12 \<le> length' sized" "12 \<le> width sized"
      "numAgents sized = n"
    by (auto simp: newTower_def)
  have "10 * 10 \<le> nat (length' sized - 2) * nat (width sized - 2)"
    using d(2,3) by (intro mult_le_mono) simp_all
  then have ne: "spawnCandidates_Tower sized \<noteq> []"
    using length_spawnCandidates_Tower[of sized] by auto
  have a: "1 \<le> numAgents sized" using assms d(4) by simp
  from placeSpawns_Tower_agents[OF a ne, of r1] obtain gen' rng' where
    p: "placeSpawns_Tower sized r1 = Inr (gen', rng')"
      "length' gen' = length' sized" "width gen' = width sized"
      "towerAgentSpawnCoords gen' =
             take (nat (min (numAgents sized) (int (length (spawnCandidates_Tower sized)))))
               (fst (shuffle (spawnCandidates_Tower sized) r1)) @
             replicate (nat (numAgents sized - min (numAgents sized) (int (length (spawnCandidates_Tower sized)))))
               (fst (shuffle (spawnCandidates_Tower sized) r1) ! 0)"
    by blast
  have same: "spawnCandidates_Tower gen' = spawnCandidates_Tower sized"
    using p(2,3) by (simp add: spawnCandidates_Tower_def)
  have run: "init_Tower (newTower n) rng = Inr (gen', rng')"
    using d(1) p(1) by (simp add: init_Tower_def)
  show ?thesis
    using d(1,2,3) run p(2,3) p(4) d(4) same
    by (intro exI[of _ gen'] exI[of _ rng'] exI[of _ sized] exI[of _ r1]) simp
qed

text \<open>
  Claim C10. With at least one agent, \<^verbatim>\<open>init\<close> of a freshly constructed Tower generator
  returns, and \<open>startingPositions\<close> is then a list of exactly \<open>numAgents\<close> coordinates:
  the first \<open>min numAgents candidates\<close> entries of a permutation of the interior cells at
  y = 2, followed by copies of the first entry of that permutation when the candidates
  are fewer than the agents.
\<close>

theorem init_Tower_startingPositions:
  assumes "1 \<le> n"
  shows "\<exists>gen' rng' shuffled. init_Tower (newTower n) rng = Inr (gen', rng') \<and>
     mset shuffled = mset (spawnCandidates_Tower gen') \<and>
     set shuffled =
       {c. 1 \<le> vx c \<and> vx c < length' gen' - 1 \<and> vy c = 2 \<and> 1 \<le> vz c \<and> vz c < width gen' - 1} \<and>
     startingPositions_Tower gen' grid =
       take (nat (min n (int (length shuffled)))) shuffled @
       replicate (nat (n - min n (int (length shuffled)))) (shuffled ! 0) \<and>
     int (length (startingPositions_Tower gen' grid)) = n"
proof -
  from init_Tower_agents[OF assms, of rng] obtain gen' rng' sized r1 where
    i: "init_Tower (newTower n) rng = Inr (gen', rng')"
      "towerAgentSpawnCoords gen' =
       take (nat (min n (int (length (spawnCandidates_Tower gen')))))
         (fst (shuffle (spawnCandidates_Tower gen') r1)) @
       replicate (nat (n - min n (int (length (spawnCandidates_Tower gen')))))
         (fst (shuffle (spawnCandidates_Tower gen') r1) ! 0)"
    by blast
  let ?sh = "fst (shuffle (spawnCandidates_Tower gen') r1)"
  have m: "mset ?sh = mset (spawnCandidates_Tower gen')" by (rule shuffle_mset)
  have l: "length ?sh = length (spawnCandidates_Tower gen')" by (rule shuffle_length)
  have s: "set ?sh = {c. 1 \<le> vx c \<and> vx c < length' gen' - 1 \<and> vy c = 2 \<and> 1 \<le> vz c \<and> vz c < width gen' - 1}"
    using shuffle_set[of "spawnCandidates_Tower gen'" r1] set_spawnCandidates_Tower[of gen'] by simp
  have e: "startingPositions_Tower gen' grid =
       take (nat (min n (int (length ?sh)))) ?sh @ replicate (nat (n - min n (int (length ?sh)))) (?sh ! 0)"
    unfolding startingPositions_Tower_def l by (rule i(2))
  let ?k = "min n (int (length ?sh))"
  have k: "0 \<le> ?k" "?k \<le> n" "?k \<le> int (length ?sh)" using assms by simp_all
  have "length (take (nat ?k) ?sh) = nat ?k" using k(3) by simp
  then have "length (startingPositions_Tower gen' grid) = nat ?k + nat (n - ?k)"
    unfolding e by simp
  then have "int (length (startingPositions_Tower gen' grid)) = n"
    using k(1,2) by linarith
  with i(1) m s e show ?thesis by blast
qed

theorem init_Tower_startingPositions_witness:
  "(1::int) \<le> 2 \<and>
   (\<exists>gen' rng'. init_Tower (newTower 2) (tapeOf []) = Inr (gen', rng') \<and>
      int (length (startingPositions_Tower gen' [])) = 2)"
proof -
  have h: "(1::int) \<le> 2" by simp
  from init_Tower_startingPositions[OF h, of "tapeOf []" "[]"] h show ?thesis by blast
qed


section \<open>Starting positions when candidates are short\<close>

lemma placeAgent_ok:
  assumes "3 \<le> length' gen" "3 \<le> width gen"
  shows "\<exists>ps' rng'. placeAgent gen k ps rng = Inr (ps', rng') \<and>
           (ps' = ps \<or> (\<exists>c. ps' = ps @ [c] \<and> c \<notin> set ps \<and> interiorCell gen c)) \<and>
           (ps = [] \<and> 0 < k \<longrightarrow> ps' \<noteq> [])"
proof (induction k arbitrary: rng)
  case 0
  show ?case by simp
next
  case (Suc k)
  obtain x r1 where x: "randRange 1 (length' gen - 1) rng = Inr (x, r1)" "1 \<le> x" "x < length' gen - 1"
    using randRange_ok[of 1 "length' gen - 1" rng] assms(1) by auto
  obtain z r2 where z: "randRange 1 (width gen - 1) r1 = Inr (z, r2)" "1 \<le> z" "z < width gen - 1"
    using randRange_ok[of 1 "width gen - 1" r1] assms(2) by auto
  show ?case
  proof (cases "VoxelCoords x 1 z \<notin> set ps")
    case True
    then have "placeAgent gen (Suc k) ps rng = Inr (ps @ [VoxelCoords x 1 z], r2)"
      using x(1) z(1) by simp
    moreover have "interiorCell gen (VoxelCoords x 1 z)"
      using x(2,3) z(2,3) by (simp add: interiorCell_def)
    ultimately show ?thesis using True by auto
  next
    case False
    then have "placeAgent gen (Suc k) ps rng = placeAgent gen k ps r2"
      using x(1) z(1) by simp
    moreover have "ps \<noteq> []" using False by auto
    ultimately show ?thesis using Suc.IH[of r2] by auto
  qed
qed

lemma placeAgents_ok:
  assumes "3 \<le> length' gen" "3 \<le> width gen"
  shows "\<exists>new rng'. placeAgents gen n ps rng = Inr (ps @ new, rng') \<and> length new \<le> n \<and>
           set new \<inter> set ps = {} \<and> distinct new \<and> (\<forall>c\<in>set new. interiorCell gen c) \<and>
           (ps = [] \<and> 0 < n \<longrightarrow> new \<noteq> [])"
proof (induction n arbitrary: ps rng)
  case 0
  show ?case by simp
next
  case (Suc n)
  from placeAgent_ok[OF assms, of 10 ps rng] obtain ps' r1 where
    a: "placeAgent gen 10 ps rng = Inr (ps', r1)"
      "ps' = ps \<or> (\<exists>c. ps' = ps @ [c] \<and> c \<notin> set ps \<and> interiorCell gen c)"
      "ps = [] \<longrightarrow> ps' \<noteq> []"
    by auto
  from Suc.IH[of ps' r1] obtain new rng' where
    r: "placeAgents gen n ps' r1 = Inr (ps' @ new, rng')" "length new \<le> n"
      "set new \<inter> set ps' = {}" "distinct new" "\<forall>c\<in>set new. interiorCell gen c"
    by blast
  have run: "placeAgents gen (Suc n) ps rng = Inr (ps' @ new, rng')"
    using a(1) r(1) by simp
  from a(2) show ?case
  proof
    assume "ps' = ps"
    then show ?thesis using run r a(3)
      by (intro exI[of _ new] exI[of _ rng']) auto
  next
    assume "\<exists>c. ps' = ps @ [c] \<and> c \<notin> set ps \<and> interiorCell gen c"
    then obtain c where c: "ps' = ps @ [c]" "c \<notin> set ps" "interiorCell gen c" by blast
    show ?thesis using run r c
      by (intro exI[of _ "c # new"] exI[of _ rng']) auto
  qed
qed

lemma interior_count:
  assumes "distinct ps" "\<forall>c\<in>set ps. interiorCell gen c"
  shows "length ps \<le> nat (length' gen - 2) * nat (width gen - 2)"
proof -
  let ?cells = "concat (map (\<lambda>x. map (\<lambda>z. VoxelCoords x 1 z) [1..width gen - 2]) [1..length' gen - 2])"
  have "set ps \<subseteq> set ?cells"
  proof
    fix c assume "c \<in> set ps"
    with assms(2) have "interiorCell gen c" by blast
    then show "c \<in> set ?cells" unfolding in_cells_xz interiorCell_def by simp
  qed
  then have "card (set ps) \<le> card (set ?cells)" by (intro card_mono) simp_all
  also have "\<dots> \<le> length ?cells" by (rule card_length)
  also have "\<dots> = nat (length' gen - 2) * nat (width gen - 2)"
    by (simp add: length_concat comp_def sum_list_triv)
  finally show ?thesis using assms(1) by (simp add: distinct_card)
qed

lemma placeAgent_numeral:
  "placeAgent gen (numeral k) agentPositions rng =
     bindE (randRange 1 (length' gen - 1) rng) (\<lambda>(x, rng).
     bindE (randRange 1 (width gen - 1) rng) (\<lambda>(z, rng).
       if VoxelCoords x 1 z \<notin> set agentPositions
       then Inr (agentPositions @ [VoxelCoords x 1 z], rng)
       else placeAgent gen (pred_numeral k) agentPositions rng))"
  by (simp add: numeral_eq_Suc)

lemma startingPositions_Basic_example:
  "startingPositions_Basic basicExample [] (tapeOf []) = Inr ([VoxelCoords 1 1 1], tapeOf [])"
  by (simp add: startingPositions_Basic_def basicExample_def numeral_2_eq_2 placeAgent_numeral
      randRange_def)

text \<open>
  The Walls generator (in \<^verbatim>\<open>init\<close>) and the Cave generator (in \<^verbatim>\<open>startingPositions\<close>)
  take the first \<open>numAgents\<close> candidates without a bound: with more agents than candidates
  this is a read out of range.
\<close>

lemma init_Walls_eleven_agents: "init_Walls (newWalls 11) (tapeOf []) = Inl OutOfRange"
proof -
  have b: "init_Basic (newWalls 11) (tapeOf []) =
      Inr (newWalls 11\<lparr>length' := 8, width := 7, height := 3\<rparr>, tapeOf [])"
    by (simp add: init_Basic_def init_GridLayoutImpl_def randRange_def)
  have p: "placeWalls (newWalls 11\<lparr>length' := 8, width := 7, height := 3\<rparr>) (tapeOf []) =
      Inr (newWalls 11\<lparr>length' := 7, width := 7, height := 3\<rparr>, tapeOf [], 0, [])"
    by (simp add: placeWalls_def newWalls_def randRange_def Let_def)
  let ?g = "newWalls 11\<lparr>length' := 7, width := 7, height := 3\<rparr>"
  let ?g' = "?g\<lparr>height := 3 + maxWallHeight ?g\<rparr>"
  obtain cands r where sh: "shuffle (spawnCandidates_Walls ?g') (tapeOf []) = (cands, r)"
    by (cases "shuffle (spawnCandidates_Walls ?g') (tapeOf [])")
  have "length cands = length (spawnCandidates_Walls ?g')"
    using shuffle_length[of "spawnCandidates_Walls ?g'" "tapeOf []"] sh by simp
  then have l: "length cands = 10"
    by (simp add: length_spawnCandidates_Walls newWalls_def)
  have sl: "slice cands 0 (numAgents ?g') = Inl OutOfRange"
    by (simp add: slice_def l newWalls_def)
  have s: "placeSpawns_Walls ?g (tapeOf []) = Inl OutOfRange"
    using sh sl by (simp add: placeSpawns_Walls_def randRange_def Let_def)
  show ?thesis by (simp add: init_Walls_def b p s)
qed

lemma startingPositions_Cave_short:
  "int (length (freeVoxels gen)) < numAgents gen \<Longrightarrow> startingPositions_Cave gen grid = Inl OutOfRange"
  by (simp add: startingPositions_Cave_def slice_def)

text \<open>
  The Tower generator bounds the same slice by the number of candidates and then repeats
  its first position: with 101 agents and the 100 candidates of a 12 by 12 level it
  returns 101 positions.
\<close>

lemma towerCandidatesAndPositions_padded:
  "towerCandidatesAndPositions 101 (tapeOf []) = Inr (100, 101)"
proof -
  have h: "(1::int) \<le> 101" by simp
  from init_Tower_agents[OF h, of "tapeOf []"] obtain gen' rng' sized r1 where
    i: "drawSizes_Tower (newTower 101) (tapeOf []) = Inr (sized, r1)"
      "init_Tower (newTower 101) (tapeOf []) = Inr (gen', rng')"
      "length' gen' = length' sized" "width gen' = width sized"
      "towerAgentSpawnCoords gen' =
       take (nat (min 101 (int (length (spawnCandidates_Tower gen')))))
         (fst (shuffle (spawnCandidates_Tower gen') r1)) @
       replicate (nat (101 - min 101 (int (length (spawnCandidates_Tower gen')))))
         (fst (shuffle (spawnCandidates_Tower gen') r1) ! 0)"
    by blast
  have "length' sized = 12 \<and> width sized = 12"
    using i(1) by (auto simp: drawSizes_Tower_def randRange_def Let_def)
  then have c: "length (spawnCandidates_Tower gen') = 100"
    using i(3,4) by (simp add: length_spawnCandidates_Tower)
  have "length (towerAgentSpawnCoords gen') = 101"
    unfolding i(5) c by (simp add: shuffle_length c)
  then show ?thesis
    using i(2) c by (simp add: towerCandidatesAndPositions_def startingPositions_Tower_def)
qed

text \<open>
  The Basic generator's \<open>startingPositions\<close> never fails: it returns at most \<open>numAgents\<close>
  pairwise distinct interior cells at y = 1, so fewer than \<open>numAgents\<close> when the interior
  cells are fewer than the agents. The Tower generator never fails either, and returns
  exactly \<open>numAgents\<close> positions.
\<close>

lemma startingPositions_siblings:
  "(3 \<le> length' gen \<and> 3 \<le> width gen \<longrightarrow>
      (\<exists>ps rng'. startingPositions_Basic gen grid rng = Inr (ps, rng') \<and>
         length ps \<le> nat (numAgents gen) \<and> distinct ps \<and> (\<forall>c\<in>set ps. interiorCell gen c) \<and>
         length ps \<le> nat (length' gen - 2) * nat (width gen - 2))) \<and>
   (1 \<le> n \<longrightarrow>
      (\<exists>tgen rng'. init_Tower (newTower n) rng = Inr (tgen, rng') \<and>
         int (length (startingPositions_Tower tgen grid)) = n))"
proof (intro conjI impI)
  assume a: "3 \<le> length' gen \<and> 3 \<le> width gen"
  then have a1: "3 \<le> length' gen" and a2: "3 \<le> width gen" by simp_all
  from placeAgents_ok[OF a1 a2, of "nat (numAgents gen)" "[]" rng] obtain new rng' where
    p: "placeAgents gen (nat (numAgents gen)) [] rng = Inr ([] @ new, rng')"
      "length new \<le> nat (numAgents gen)" "distinct new" "\<forall>c\<in>set new. interiorCell gen c"
    by blast
  from interior_count[OF p(3,4)] p
  show "\<exists>ps rng'. startingPositions_Basic gen grid rng = Inr (ps, rng') \<and>
         length ps \<le> nat (numAgents gen) \<and> distinct ps \<and> (\<forall>c\<in>set ps. interiorCell gen c) \<and>
         length ps \<le> nat (length' gen - 2) * nat (width gen - 2)"
    by (intro exI[of _ new] exI[of _ rng']) (simp add: startingPositions_Basic_def)
next
  assume n: "1 \<le> n"
  from init_Tower_agents[OF n, of rng] obtain gen' rng' sized r1 where
    i: "init_Tower (newTower n) rng = Inr (gen', rng')"
      "towerAgentSpawnCoords gen' =
       take (nat (min n (int (length (spawnCandidates_Tower gen')))))
         (fst (shuffle (spawnCandidates_Tower gen') r1)) @
       replicate (nat (n - min n (int (length (spawnCandidates_Tower gen')))))
         (fst (shuffle (spawnCandidates_Tower gen') r1) ! 0)"
    by blast
  let ?sh = "fst (shuffle (spawnCandidates_Tower gen') r1)"
  let ?k = "min n (int (length (spawnCandidates_Tower gen')))"
  have l: "length ?sh = length (spawnCandidates_Tower gen')" by (rule shuffle_length)
  have k: "0 \<le> ?k" "?k \<le> n" "?k \<le> int (length ?sh)" using n l by simp_all
  have "length (take (nat ?k) ?sh) = nat ?k" using k(3) by simp
  then have "length (towerAgentSpawnCoords gen') = nat ?k + nat (n - ?k)"
    unfolding i(2) by simp
  then have "int (length (startingPositions_Tower gen' grid)) = n"
    using k(1,2) by (simp add: startingPositions_Tower_def)
  with i(1) show "\<exists>tgen rng'. init_Tower (newTower n) rng = Inr (tgen, rng') \<and>
         int (length (startingPositions_Tower tgen grid)) = n"
    by blast
qed

lemma startingPositions_siblings_example:
  "3 \<le> length' basicExample \<and> 3 \<le> width basicExample \<and> (1::int) \<le> 2 \<and>
   startingPositions_Basic basicExample [] (tapeOf []) = Inr ([VoxelCoords 1 1 1], tapeOf []) \<and>
   interiorCell basicExample (VoxelCoords 1 1 1) \<and>
   (\<exists>tgen rng'. init_Tower (newTower 2) (tapeOf []) = Inr (tgen, rng') \<and>
      int (length (startingPositions_Tower tgen [])) = 2)"
proof -
  have h: "3 \<le> length' basicExample \<and> 3 \<le> width basicExample" "(1::int) \<le> 2"
    by (simp_all add: basicExample_def)
  from startingPositions_siblings[of basicExample "[]" "tapeOf []" 2] h
    startingPositions_Basic_example
  show ?thesis by auto
qed

lemma length_firstStandable: "length (firstStandable grid x z ys) \<le> 1"
  by (induction ys) simp_all

lemma sum_list_le_const:
  "(\<And>x. x \<in> set xs \<Longrightarrow> f x \<le> (k::nat)) \<Longrightarrow> sum_list (map f xs) \<le> k * length xs"
proof (induction xs)
  case Nil
  show ?case by simp
next
  case (Cons a xs)
  have "f a \<le> k" using Cons.prems by simp
  moreover have "sum_list (map f xs) \<le> k * length xs" using Cons by simp
  ultimately show ?case by simp
qed

lemma length_getFreeVoxels:
  "length (getFreeVoxels grid len wid startY) \<le> nat (len - 2) * nat (wid - 2)"
proof -
  have inner: "length (concat (map (\<lambda>z. firstStandable grid x z (rev [1..startY])) [1..wid - 2]))
      \<le> nat (wid - 2)" for x
  proof -
    have "sum_list (map (\<lambda>z. length (firstStandable grid x z (rev [1..startY]))) [1..wid - 2])
        \<le> 1 * length [1..wid - 2]"
      by (rule sum_list_le_const) (rule length_firstStandable)
    then show ?thesis by (simp add: length_concat comp_def)
  qed
  have "sum_list (map (\<lambda>x. length (concat (map (\<lambda>z. firstStandable grid x z (rev [1..startY]))
            [1..wid - 2]))) [1..len - 2]) \<le> nat (wid - 2) * length [1..len - 2]"
    by (rule sum_list_le_const) (rule inner)
  then show ?thesis by (simp add: getFreeVoxels_def length_concat comp_def mult.commute)
qed

lemma generate_Cave_run:
  assumes "5 \<le> length' gen" "5 \<le> width gen"
  shows "\<exists>fv grid' rng'. generate_Cave gen grid rng = Some (Inr (gen\<lparr>freeVoxels := fv\<rparr>, grid', rng')) \<and>
           length fv \<le> nat (length' gen - 2) * nat (width gen - 2)"
proof -
  have "2 \<le> length' gen" "2 \<le> width gen" using assms by simp_all
  from generate_Basic_get[OF this, of grid] obtain g1 where
    b: "generate_Basic gen grid = Some g1" by blast
  from floodFill_ok[OF assms, of rng] obtain cave gp r1 where
    f: "floodFill gen rng = Inr (cave, gp, r1)" by (metis prod_cases3)
  let ?g = "caveWalls gen cave (topSurface gen cave g1)"
  let ?fv = "getFreeVoxels ?g (length' gen) (width gen) (caveHeight gen + 1)"
  obtain fv r2 where sh: "shuffle ?fv r1 = (fv, r2)" by (cases "shuffle ?fv r1")
  have run: "generate_Cave gen grid rng = Some (Inr (gen\<lparr>freeVoxels := fv\<rparr>, ?g, r2))"
    using b f sh by (simp add: generate_Cave_def Let_def)
  have "length fv = length ?fv" using shuffle_length[of ?fv r1] sh by simp
  then have "length fv \<le> nat (length' gen - 2) * nat (width gen - 2)"
    using length_getFreeVoxels[of ?g "length' gen" "width gen" "caveHeight gen + 1"] by simp
  with run show ?thesis by blast
qed

text \<open>
  Claim C8. With fewer candidates than agents the Walls and the Cave generator do not
  return a reduced list: they read out of range. With 11 agents and the sequencer that
  draws the least value of every range, the Walls level has 10 spawn candidates and
  \<^verbatim>\<open>init\<close> takes the first 11 of them; with 31 agents the Cave level is 8 by 7, has at
  most 30 free voxels, and \<^verbatim>\<open>startingPositions\<close> takes the first 31 of them.
\<close>

theorem startingPositions_out_of_range:
  "startingPositionsAfterInit Walls 11 (tapeOf []) = Some (Inl OutOfRange) \<and>
   startingPositionsAfterInit Cave 31 (tapeOf []) = Some (Inl OutOfRange)"
proof
  show "startingPositionsAfterInit Walls 11 (tapeOf []) = Some (Inl OutOfRange)"
    by (simp add: startingPositionsAfterInit_def init_Component_def init_Walls_eleven_agents)
next
  show "startingPositionsAfterInit Cave 31 (tapeOf []) = Some (Inl OutOfRange)"
  proof -
    let ?gen = "newCave 31\<lparr>length' := 8, width := 7, caveHeight := 2, height := 5\<rparr>"
    have i: "init_Cave (newCave 31) (tapeOf []) = Inr (?gen, tapeOf [])"
      by (simp add: init_Cave_def init_Basic_def init_GridLayoutImpl_def randRange_def)
    have d: "length' ?gen = 8" "width ?gen = 7" "numAgents ?gen = 31" by (simp_all add: newCave_def)
    have "5 \<le> length' ?gen" "5 \<le> width ?gen" using d by simp_all
    from generate_Cave_run[OF this, of "[]" "tapeOf []"] obtain fv grid' rng' where
      g: "generate_Cave ?gen [] (tapeOf []) = Some (Inr (?gen\<lparr>freeVoxels := fv\<rparr>, grid', rng'))"
        "length fv \<le> nat (length' ?gen - 2) * nat (width ?gen - 2)"
      by blast
    have l: "length fv \<le> 30" using g(2) d by simp
    have s: "startingPositions_Cave (?gen\<lparr>freeVoxels := fv\<rparr>) grid' = Inl OutOfRange"
      by (rule startingPositions_Cave_short) (use l d in simp)
    show ?thesis
      by (simp add: startingPositionsAfterInit_def init_Component_def i generate_Component_def g(1)
          startingPositions_Component_def s)
  qed
qed

section \<open>The environment: the generated grid and the reset\<close>

text \<open>
  A property of the grid that every insertion preserves is preserved by the loops of the
  generators, also by the strided loops when they end.
\<close>

lemma fold_pres: "(\<And>x s. P s \<Longrightarrow> P (k x s)) \<Longrightarrow> P s \<Longrightarrow> P (fold k xs s)"
  by (induction xs arbitrary: s) simp_all

lemma distinct_grid_set: "distinct (map fst g) \<Longrightarrow> distinct (map fst (grid_set g c v))"
  by (simp add: grid_set_def distinct_update)

lemma forStride_pres:
  assumes "forStride i n stride body grid = Some grid'" "\<And>i g. P g \<Longrightarrow> P (body i g)" "P grid"
  shows "P grid'"
proof -
  from assms(1) have "(\<forall>i g. P g \<longrightarrow> P (body i g)) \<longrightarrow> P grid \<longrightarrow> P grid'"
    by (rule forStride.raw_induct[where P = "\<lambda>i n stride bdy g g'.
          (\<forall>i g. P g \<longrightarrow> P (bdy i g)) \<longrightarrow> P g \<longrightarrow> P g'", rotated])
      (auto split: if_splits)
  with assms(2,3) show ?thesis by blast
qed

lemma foldOpt_pres:
  assumes "foldOpt f xs s = Some s'" "\<And>x s s'. f x s = Some s' \<Longrightarrow> P s \<Longrightarrow> P s'" "P s"
  shows "P s'"
  using assms(1,3)
proof (induction xs arbitrary: s)
  case Nil
  then show ?case by simp
next
  case (Cons x xs)
  then show ?case using assms(2) by (auto split: option.splits)
qed

lemma generate_Basic_distinct:
  assumes "generate_Basic gen grid = Some grid'" "distinct (map fst grid)"
  shows "distinct (map fst grid')"
proof -
  let ?P = "\<lambda>g. distinct (map fst g)"
  let ?g1 = "fold (\<lambda>x. fold (\<lambda>z g. grid_set g (VoxelCoords x 0 z) solidVoxel) [0..width gen - 1])
              [0..length' gen - 1] grid"
  have p1: "?P ?g1"
    by (intro fold_pres[where P = ?P] distinct_grid_set assms(2))
  from assms(1) obtain grid2 where
    g2: "forStride 0 (length' gen) (length' gen - 1)
                (\<lambda>x. fold (\<lambda>y. fold (\<lambda>z g. grid_set g (VoxelCoords x y z) solidVoxel)
                                  [0..width gen - 1])
                        [0..height gen - 1]) ?g1 = Some grid2"
    and g3: "foldOpt (\<lambda>x. foldOpt (\<lambda>y. forStride 0 (width gen) (width gen - 1)
                                         (\<lambda>z g. grid_set g (VoxelCoords x y z) solidVoxel))
                             [0..height gen - 1])
               [0..length' gen - 1] grid2 = Some grid'"
    by (auto simp: generate_Basic_def Let_def split: option.splits)
  have p2: "?P grid2"
    by (rule forStride_pres[where P = ?P, OF g2 _ p1]) (intro fold_pres[where P = ?P] distinct_grid_set)
  show ?thesis
  proof (rule foldOpt_pres[where P = ?P, OF g3 _ p2])
    fix x s s'
    assume a: "foldOpt (\<lambda>y. forStride 0 (width gen) (width gen - 1)
                 (\<lambda>z g. grid_set g (VoxelCoords x y z) solidVoxel)) [0..height gen - 1] s = Some s'"
      and s: "?P s"
    show "?P s'"
    proof (rule foldOpt_pres[where P = ?P, OF a _ s])
      fix y t t'
      assume b: "forStride 0 (width gen) (width gen - 1)
                 (\<lambda>z g. grid_set g (VoxelCoords x y z) solidVoxel) t = Some t'" and t: "?P t"
      show "?P t'" by (rule forStride_pres[where P = ?P, OF b _ t]) (rule distinct_grid_set)
    qed
  qed
qed

lemma distinct_topSurface:
  "distinct (map fst grid) \<Longrightarrow> distinct (map fst (topSurface gen cave grid))"
  unfolding topSurface_def
  by (intro fold_pres[where P = "\<lambda>g. distinct (map fst g)"]) (simp_all add: distinct_grid_set)

lemma distinct_caveWalls:
  "distinct (map fst grid) \<Longrightarrow> distinct (map fst (caveWalls gen cave grid))"
  unfolding caveWalls_def
  by (intro fold_pres[where P = "\<lambda>g. distinct (map fst g)"]) (simp_all add: distinct_grid_set Let_def)

text \<open>
  Every generator leaves a grid with one entry per coordinate.
\<close>

lemma generate_Component_distinct:
  assumes "generate_Component generator grid rng = Some (Inr (generator', grid', rng'))"
    "distinct (map fst grid)"
  shows "distinct (map fst grid')"
proof (cases generator)
  case (BasicGen gen)
  with assms show ?thesis
    by (auto simp: generate_Component_def dest: generate_Basic_distinct)
next
  case (WallsGen gen)
  with assms(1) obtain g1 where g: "generate_Basic gen grid = Some g1" and
    e: "grid' = fold (\<lambda>wall. fold (\<lambda>y. fold (\<lambda>z g. grid_set g (VoxelCoords (fst wall) y z) solidVoxel)
                                           [1..width gen - 2])
                                [1..1 + snd wall - 1])
                  (walls gen) g1"
    by (auto simp: generate_Component_def generate_Walls_def split: option.splits)
  have "distinct (map fst g1)" by (rule generate_Basic_distinct[OF g assms(2)])
  then show ?thesis unfolding e
    by (intro fold_pres[where P = "\<lambda>g. distinct (map fst g)"] distinct_grid_set)
next
  case (CaveGen gen)
  with assms(1) obtain g1 cave where g: "generate_Basic gen grid = Some g1" and
    e: "grid' = caveWalls gen cave (topSurface gen cave g1)"
    by (auto simp: generate_Component_def generate_Cave_def bindE_def Let_def
        split: option.splits sum.splits prod.splits)
  have "distinct (map fst g1)" by (rule generate_Basic_distinct[OF g assms(2)])
  then show ?thesis unfolding e by (intro distinct_caveWalls distinct_topSurface)
next
  case (TowerGen gen)
  with assms show ?thesis
    by (auto simp: generate_Component_def generate_Tower_def dest: generate_Basic_distinct)
qed

text \<open>
  An iteration order rearranges the entries of the grid: the coordinates stay distinct and
  every lookup gives the same result.
\<close>

lemma perm_distinct:
  assumes "mset g' = mset g" "distinct (map fst g)"
  shows "distinct (map fst g')"
proof -
  have "mset (map fst g') = mset (map fst g)" using assms(1) by (metis mset_map)
  then show ?thesis using assms(2) by (metis mset_eq_imp_distinct_iff)
qed

lemma perm_isSolid:
  assumes "mset g' = mset g" "distinct (map fst g)"
  shows "isSolid g' = isSolid g"
proof -
  have "set g' = set g" using assms(1) by (rule mset_eq_setD)
  then have "map_of g' = map_of g"
    using map_of_inject_set[OF perm_distinct[OF assms] assms(2)] by simp
  then show ?thesis by (simp add: isSolid_def grid_get_def fun_eq_iff)
qed

text \<open>
  On a grid with one entry per coordinate, in whatever order, the extraction returns
  pairwise disjoint boxes that cover exactly the solid voxels.
\<close>

lemma extractPrimitives_cover:
  assumes "distinct (map fst grid)"
  shows "\<exists>ps. extractPrimitives grid = Some ps \<and> disjointBoxes ps \<and>
           \<Union> (coverage ` set ps) = {c. isSolid grid c}"
proof -
  have "disjointBoxes []" by (simp add: disjointBoxes_def)
  from extractLoop_total[OF subset_refl assms _ this, of "{}"] obtain ps where
    ps: "extractLoop grid grid {} [] = Some ps" "disjointBoxes ps"
      "\<Union> (coverage ` set ps) \<subseteq> {c. isSolid grid c}"
      "{c. isSolid grid c \<and> c \<in> fst ` set grid} \<subseteq> \<Union> (coverage ` set ps)"
    by auto
  have keys: "\<And>c. isSolid grid c \<Longrightarrow> c \<in> fst ` set grid"
    by (auto simp: isSolid_def grid_get_def split: option.splits dest!: map_of_SomeD intro: rev_image_eqI)
  have "\<Union> (coverage ` set ps) = {c. isSolid grid c}"
    using ps(3,4) keys by auto
  with ps(1,2) show ?thesis by (auto simp: extractPrimitives_def)
qed

lemma extractPrimitives_returns:
  assumes "distinct (map fst grid)"
  shows "\<exists>ps. extractPrimitives grid = Some ps"
  using extractPrimitives_cover[OF assms] by blast

lemma generate_Basic_run:
  assumes "2 \<le> length' gen" "2 \<le> width gen"
  shows "generate_Basic gen grid = Some (shellGrid gen grid)"
  unfolding generate_Basic_def shellGrid_def Let_def
  by (simp add: forStride_two[OF assms(1)] forStride_two_fun[OF assms(2)] foldOpt_Some_fun)

lemma distinct_shellGrid: "distinct (map fst grid) \<Longrightarrow> distinct (map fst (shellGrid gen grid))"
  unfolding shellGrid_def
  by (intro fold_pres[where P = "\<lambda>g. distinct (map fst g)"] distinct_grid_set)

text \<open>
  The steps of a reset that has returned, and the reset as the last of its steps.
\<close>

lemma Env_reset_cases:
  assumes "Env_reset mt hashOrder layoutType env = Some (Inr res)"
  shows "\<exists>seed r0 generator r1 generator' grid r2 ps.
     randRange 0 10000 (envRng env) = Inr (seed, r0) \<and>
     init_Component (envNumAgents env) layoutType (mt seed) = Inr (generator, r1) \<and>
     generate_Component generator [] r1 = Some (Inr (generator', grid, r2)) \<and>
     extractPrimitives (hashOrder grid) = Some ps \<and>
     placeRegions env generator' grid ps r2 = Inr res"
  using assms unfolding Env_reset_def grid_clear_def extractPrimitives_Component_def
  by (auto split: sum.splits option.splits prod.splits)

lemma Env_reset_run:
  assumes "randRange 0 10000 (envRng env) = Inr (seed, r0)"
    "init_Component (envNumAgents env) layoutType (mt seed) = Inr (generator, r1)"
    "generate_Component generator [] r1 = Some (Inr (generator', grid, r2))"
    "extractPrimitives (hashOrder grid) = Some ps"
  shows "Env_reset mt hashOrder layoutType env = Some (placeRegions env generator' grid ps r2)"
  using assms by (simp add: Env_reset_def grid_clear_def extractPrimitives_Component_def)

text \<open>
  The regions do not depend on the primitives, and of the state before the reset they
  depend on the number of agents only.
\<close>

lemma placeRegions_shape:
  assumes "placeRegions env generator grid ps rng = Inr res"
  shows "\<exists>pad positions rng'. \<forall>env' ps'. envNumAgents env' = envNumAgents env \<longrightarrow>
     placeRegions env' generator grid ps' rng =
       Inr (env'\<lparr>envRng := rng', episodeDuration := 0, envGrid := grid,
                 layoutGenerator := Some generator, layoutDrawables := ps',
                 exitPad := pad, agentStartingPositions := positions\<rparr>)"
proof -
  from assms obtain pad ra cands rb sh rc positions where
    x: "levelExit_Component generator grid rng = Inr (pad, ra)"
      "startingPositions_Component generator grid ra = Inr (cands, rb)"
      "shuffle cands rb = (sh, rc)" "slice sh 0 (envNumAgents env) = Inr positions"
    unfolding placeRegions_def bindE_def Let_def
    by (auto split: sum.splits prod.splits)
  have "placeRegions env' generator grid ps' rng =
       Inr (env'\<lparr>envRng := rc, episodeDuration := 0, envGrid := grid,
                 layoutGenerator := Some generator, layoutDrawables := ps',
                 exitPad := pad, agentStartingPositions := positions\<rparr>)"
    if "envNumAgents env' = envNumAgents env" for env' ps'
    using x that by (simp add: placeRegions_def)
  then show ?thesis by blast
qed

lemma placeRegions_drawables:
  "placeRegions env generator grid ps rng = Inr res \<Longrightarrow> layoutDrawables res = ps"
  unfolding placeRegions_def bindE_def Let_def
  by (auto split: sum.splits prod.splits)

text \<open>With one agent and the Basic archetype \<open>reset\<close> returns, whatever the seed.\<close>

lemma Env_reset_returns:
  assumes "envNumAgents env = 1" "\<And>g. mset (hashOrder g) = mset g"
  shows "\<exists>env'. Env_reset mt hashOrder Empty env = Some (Inr env') \<and>
           length (agentStartingPositions env') = 1"
proof -
  obtain seed r0 where s: "randRange 0 10000 (envRng env) = Inr (seed, r0)"
    using randRange_ok[of 0 10000 "envRng env"] by auto
  from init_Basic_ok[of "newBasic 1" "mt seed"] obtain l w h r1 where
    i: "init_Basic (newBasic 1) (mt seed) = Inr (newBasic 1\<lparr>length' := l, width := w, height := h\<rparr>, r1)"
      "8 \<le> l" "7 \<le> w"
    by blast
  let ?gen = "newBasic 1\<lparr>length' := l, width := w, height := h\<rparr>"
  have dims: "length' ?gen = l" "width ?gen = w" "numAgents ?gen = 1"
    by (simp_all add: newBasic_def)
  have ic: "init_Component (envNumAgents env) Empty (mt seed) = Inr (BasicGen ?gen, r1)"
    using i(1) assms(1) by (simp add: init_Component_def)
  have g: "generate_Basic ?gen [] = Some (shellGrid ?gen [])"
    by (rule generate_Basic_run) (use i(2,3) dims in simp_all)
  have gc: "generate_Component (BasicGen ?gen) [] r1 = Some (Inr (BasicGen ?gen, shellGrid ?gen [], r1))"
    using g by (simp add: generate_Component_def)
  have "distinct (map fst (shellGrid ?gen []))" by (rule distinct_shellGrid) simp
  then have "distinct (map fst (hashOrder (shellGrid ?gen [])))"
    by (rule perm_distinct[OF assms(2)])
  from extractPrimitives_returns[OF this] obtain ps where
    e: "extractPrimitives (hashOrder (shellGrid ?gen [])) = Some ps"
    by blast
  have "1 \<le> numAgents ?gen" "min 3 (numAgents ?gen) \<le> width ?gen - 2" "numAgents ?gen \<le> width ?gen - 2"
    using i(3) dims by simp_all
  from levelExit_Basic_fits[OF this, of "shellGrid ?gen []" r1] obtain box r2 where
    x: "levelExit_Component (BasicGen ?gen) (shellGrid ?gen []) r1 = Inr (box, r2)"
    by (auto simp: levelExit_Component_def)
  have "3 \<le> length' ?gen" "3 \<le> width ?gen" using i(2,3) dims by simp_all
  from placeAgents_ok[OF this, of "Suc 0" "[]" r2] obtain new r3 where
    p: "placeAgents ?gen (Suc 0) [] r2 = Inr (new, r3)" "length new \<le> Suc 0" "new \<noteq> []"
    by auto
  then have ln: "length new = 1" by (cases new) auto
  have sp: "startingPositions_Component (BasicGen ?gen) (shellGrid ?gen []) r2 = Inr (new, r3)"
    using p(1) dims by (simp add: startingPositions_Component_def startingPositions_Basic_def)
  obtain sh r4 where shf: "shuffle new r3 = (sh, r4)" by (cases "shuffle new r3")
  have lsh: "length sh = 1" using shuffle_length[of new r3] shf ln by simp
  have sl: "slice sh 0 1 = Inr (take 1 sh)" using slice_ok[of 0 1 sh] lsh by simp
  have pr: "placeRegions env (BasicGen ?gen) (shellGrid ?gen []) ps r1 =
      Inr (env\<lparr>envRng := r4, episodeDuration := 0, envGrid := shellGrid ?gen [],
               layoutGenerator := Some (BasicGen ?gen), layoutDrawables := ps,
               exitPad := box, agentStartingPositions := take 1 sh\<rparr>)"
    using x sp shf sl assms(1) by (simp add: placeRegions_def)
  have "Env_reset mt hashOrder Empty env =
      Some (placeRegions env (BasicGen ?gen) (shellGrid ?gen []) ps r1)"
    by (rule Env_reset_run[where mt = mt and hashOrder = hashOrder, OF s ic gc e])
  then show ?thesis using pr lsh by simp
qed

text \<open>With at least one agent and the Tower archetype \<open>reset\<close> returns, whatever the seed.\<close>

lemma Env_reset_returns_Towers:
  assumes "1 \<le> envNumAgents env" "\<And>g. mset (hashOrder g) = mset g"
  shows "\<exists>env'. Env_reset mt hashOrder Towers env = Some (Inr env') \<and>
           int (length (agentStartingPositions env')) = envNumAgents env"
proof -
  let ?n = "envNumAgents env"
  obtain seed r0 where s: "randRange 0 10000 (envRng env) = Inr (seed, r0)"
    using randRange_ok[of 0 10000 "envRng env"] by auto
  from init_Tower_agents[OF assms(1), of "mt seed"] obtain gen r1 sized ra where
    i: "init_Tower (newTower ?n) (mt seed) = Inr (gen, r1)"
      "12 \<le> length' gen" "12 \<le> width gen"
      "towerAgentSpawnCoords gen =
       take (nat (min ?n (int (length (spawnCandidates_Tower gen)))))
         (fst (shuffle (spawnCandidates_Tower gen) ra)) @
       replicate (nat (?n - min ?n (int (length (spawnCandidates_Tower gen)))))
         (fst (shuffle (spawnCandidates_Tower gen) ra) ! 0)"
    by blast
  let ?cands = "fst (shuffle (spawnCandidates_Tower gen) ra)"
  let ?k = "min ?n (int (length (spawnCandidates_Tower gen)))"
  have lc: "length ?cands = length (spawnCandidates_Tower gen)" by (rule shuffle_length)
  have "length (take (nat ?k) ?cands) = nat ?k" using lc by simp
  then have "length (towerAgentSpawnCoords gen) = nat ?k + nat (?n - ?k)"
    unfolding i(4) by simp
  then have la: "int (length (towerAgentSpawnCoords gen)) = ?n" using assms(1) by simp
  have ic: "init_Component ?n Towers (mt seed) = Inr (TowerGen gen, r1)"
    using i(1) by (simp add: init_Component_def)
  have g: "generate_Basic gen [] = Some (shellGrid gen [])"
    by (rule generate_Basic_run) (use i(2,3) in simp_all)
  have gc: "generate_Component (TowerGen gen) [] r1 = Some (Inr (TowerGen gen, shellGrid gen [], r1))"
    using g by (simp add: generate_Component_def generate_Tower_def)
  have "distinct (map fst (shellGrid gen []))" by (rule distinct_shellGrid) simp
  then have "distinct (map fst (hashOrder (shellGrid gen [])))"
    by (rule perm_distinct[OF assms(2)])
  from extractPrimitives_returns[OF this] obtain ps where
    e: "extractPrimitives (hashOrder (shellGrid gen [])) = Some ps"
    by blast
  obtain sh r2 where shf: "shuffle (towerAgentSpawnCoords gen) r1 = (sh, r2)"
    by (cases "shuffle (towerAgentSpawnCoords gen) r1")
  have lsh: "int (length sh) = ?n"
    using shuffle_length[of "towerAgentSpawnCoords gen" r1] shf la by simp
  have sl: "slice sh 0 ?n = Inr (take (nat ?n) sh)"
    using slice_ok[of 0 ?n sh] lsh assms(1) by simp
  have pr: "placeRegions env (TowerGen gen) (shellGrid gen []) ps r1 =
      Inr (env\<lparr>envRng := r2, episodeDuration := 0, envGrid := shellGrid gen [],
               layoutGenerator := Some (TowerGen gen), layoutDrawables := ps,
               exitPad := levelExit_Tower gen (shellGrid gen []),
               agentStartingPositions := take (nat ?n) sh\<rparr>)"
    using shf sl
    by (simp add: placeRegions_def levelExit_Component_def startingPositions_Component_def
        startingPositions_Tower_def)
  have "Env_reset mt hashOrder Towers env =
      Some (placeRegions env (TowerGen gen) (shellGrid gen []) ps r1)"
    by (rule Env_reset_run[where mt = mt and hashOrder = hashOrder, OF s ic gc e])
  then show ?thesis using pr lsh assms(1) by simp
qed

lemma firstStandable_one:
  "\<exists>y\<in>set ys. isSolid grid (VoxelCoords x (y - 1) z) \<Longrightarrow>
   length (firstStandable grid x z ys) = 1"
  by (induction ys) auto

lemma length_getFreeVoxels_floor:
  assumes "1 \<le> startY"
    "\<And>x z. 1 \<le> x \<Longrightarrow> x \<le> len - 2 \<Longrightarrow> 1 \<le> z \<Longrightarrow> z \<le> wid - 2 \<Longrightarrow> isSolid grid (VoxelCoords x 0 z)"
  shows "length (getFreeVoxels grid len wid startY) = nat (len - 2) * nat (wid - 2)"
proof -
  have one: "length (firstStandable grid x z (rev [1..startY])) = 1"
    if "x \<in> set [1..len - 2]" "z \<in> set [1..wid - 2]" for x z
  proof (rule firstStandable_one)
    have "1 \<in> set (rev [1..startY])" using assms(1) by simp
    moreover have "isSolid grid (VoxelCoords x (1 - 1) z)" using that assms(2) by simp
    ultimately show "\<exists>y\<in>set (rev [1..startY]). isSolid grid (VoxelCoords x (y - 1) z)" by blast
  qed
  have inner: "length (concat (map (\<lambda>z. firstStandable grid x z (rev [1..startY])) [1..wid - 2]))
      = nat (wid - 2)" if "x \<in> set [1..len - 2]" for x
  proof -
    have eq: "map (\<lambda>z. length (firstStandable grid x z (rev [1..startY]))) [1..wid - 2] =
          map (\<lambda>z. 1) [1..wid - 2]"
      by (rule map_cong[OF refl]) (rule one[OF that])
    have "length (concat (map (\<lambda>z. firstStandable grid x z (rev [1..startY])) [1..wid - 2])) =
          sum_list (map (\<lambda>z. length (firstStandable grid x z (rev [1..startY]))) [1..wid - 2])"
      by (simp add: length_concat comp_def)
    also have "\<dots> = sum_list (map (\<lambda>z. 1) [1..wid - 2])" by (simp only: eq)
    also have "\<dots> = nat (wid - 2)" by (simp add: sum_list_triv)
    finally show ?thesis .
  qed
  have eq: "map (\<lambda>x. length (concat (map (\<lambda>z. firstStandable grid x z (rev [1..startY])) [1..wid - 2])))
          [1..len - 2] = map (\<lambda>x. nat (wid - 2)) [1..len - 2]"
    by (rule map_cong[OF refl]) (rule inner)
  have "length (getFreeVoxels grid len wid startY) =
        sum_list (map (\<lambda>x. length (concat (map (\<lambda>z. firstStandable grid x z (rev [1..startY]))
          [1..wid - 2]))) [1..len - 2])"
    by (simp add: getFreeVoxels_def length_concat comp_def)
  also have "\<dots> = sum_list (map (\<lambda>x. nat (wid - 2)) [1..len - 2])" by (simp only: eq)
  also have "\<dots> = nat (len - 2) * nat (wid - 2)" by (simp add: sum_list_triv)
  finally show ?thesis .
qed

lemma isSolid_grid_set: "isSolid g c \<Longrightarrow> isSolid (grid_set g c' solidVoxel) c"
  by (simp add: isSolid_def grid_get_set solidVoxel_def)

lemma isSolid_topSurface: "isSolid grid c \<Longrightarrow> isSolid (topSurface gen cave grid) c"
  unfolding topSurface_def
  by (intro fold_pres[where P = "\<lambda>g. isSolid g c"]) (simp_all add: isSolid_grid_set)

lemma isSolid_caveWalls: "isSolid grid c \<Longrightarrow> isSolid (caveWalls gen cave grid) c"
  unfolding caveWalls_def
  by (intro fold_pres[where P = "\<lambda>g. isSolid g c"]) (simp_all add: isSolid_grid_set Let_def)

text \<open>
  Every column of the interior of a cave level holds exactly one free voxel, because the
  floor below it is solid.
\<close>

lemma generate_Cave_count:
  assumes "5 \<le> length' gen" "5 \<le> width gen" "0 \<le> caveHeight gen"
  shows "\<exists>fv grid' rng'. generate_Cave gen grid rng = Some (Inr (gen\<lparr>freeVoxels := fv\<rparr>, grid', rng')) \<and>
           length fv = nat (length' gen - 2) * nat (width gen - 2)"
proof -
  have h: "2 \<le> length' gen" "2 \<le> width gen" using assms by simp_all
  from generate_Basic_get[OF h, of grid] obtain g1 where
    b: "generate_Basic gen grid = Some g1" and
    floor: "\<And>x z. 0 \<le> x \<Longrightarrow> x < length' gen \<Longrightarrow> 0 \<le> z \<Longrightarrow> z < width gen \<Longrightarrow>
              isSolid g1 (VoxelCoords x 0 z)"
    by (auto simp: isSolid_def solidVoxel_def)
  from floodFill_ok[OF assms(1,2), of rng] obtain cave gp r1 where
    f: "floodFill gen rng = Inr (cave, gp, r1)" by (metis prod_cases3)
  let ?g = "caveWalls gen cave (topSurface gen cave g1)"
  let ?fv = "getFreeVoxels ?g (length' gen) (width gen) (caveHeight gen + 1)"
  obtain fv r2 where sh: "shuffle ?fv r1 = (fv, r2)" by (cases "shuffle ?fv r1")
  have run: "generate_Cave gen grid rng = Some (Inr (gen\<lparr>freeVoxels := fv\<rparr>, ?g, r2))"
    using b f sh by (simp add: generate_Cave_def Let_def)
  have "length ?fv = nat (length' gen - 2) * nat (width gen - 2)"
  proof (rule length_getFreeVoxels_floor)
    show "1 \<le> caveHeight gen + 1" using assms(3) by simp
  next
    fix x z :: int
    assume "1 \<le> x" "x \<le> length' gen - 2" "1 \<le> z" "z \<le> width gen - 2"
    then have "isSolid g1 (VoxelCoords x 0 z)" by (intro floor) simp_all
    then show "isSolid ?g (VoxelCoords x 0 z)" by (intro isSolid_caveWalls isSolid_topSurface)
  qed
  moreover have "length fv = length ?fv" using shuffle_length[of ?fv r1] sh by simp
  ultimately show ?thesis using run by auto
qed

text \<open>With at most 30 agents and the Cave archetype \<open>reset\<close> returns, whatever the seed.\<close>

lemma Env_reset_returns_Cave:
  assumes "0 \<le> envNumAgents env" "envNumAgents env \<le> 30" "\<And>g. mset (hashOrder g) = mset g"
  shows "\<exists>env'. Env_reset mt hashOrder Cave env = Some (Inr env') \<and>
           int (length (agentStartingPositions env')) = envNumAgents env"
proof -
  let ?n = "envNumAgents env"
  obtain seed r0 where s: "randRange 0 10000 (envRng env) = Inr (seed, r0)"
    using randRange_ok[of 0 10000 "envRng env"] by auto
  from init_Basic_ok[of "newCave ?n" "mt seed"] obtain l w h ra where
    b: "init_Basic (newCave ?n) (mt seed) = Inr (newCave ?n\<lparr>length' := l, width := w, height := h\<rparr>, ra)"
      "8 \<le> l" "7 \<le> w"
    by blast
  obtain ch rb where ch: "randRange 2 5 ra = Inr (ch, rb)" "2 \<le> ch"
    using randRange_ok[of 2 5 ra] by auto
  obtain hh r1 where hh: "randRange 3 5 rb = Inr (hh, r1)"
    using randRange_ok[of 3 5 rb] by auto
  let ?gen = "newCave ?n\<lparr>length' := l, width := w, height := h\<rparr>\<lparr>caveHeight := ch, height := hh + ch\<rparr>"
  have i: "init_Cave (newCave ?n) (mt seed) = Inr (?gen, r1)"
    using b(1) ch(1) hh by (simp add: init_Cave_def)
  have dims: "length' ?gen = l" "width ?gen = w" "numAgents ?gen = ?n" "caveHeight ?gen = ch"
    by (simp_all add: newCave_def)
  have ic: "init_Component ?n Cave (mt seed) = Inr (CaveGen ?gen, r1)"
    using i by (simp add: init_Component_def)
  have "5 \<le> length' ?gen" "5 \<le> width ?gen" "0 \<le> caveHeight ?gen"
    using b(2,3) ch(2) dims by simp_all
  from generate_Cave_count[OF this, of "[]" r1] obtain fv grid r2 where
    g: "generate_Cave ?gen [] r1 = Some (Inr (?gen\<lparr>freeVoxels := fv\<rparr>, grid, r2))"
      "length fv = nat (length' ?gen - 2) * nat (width ?gen - 2)"
    by blast
  let ?gen' = "?gen\<lparr>freeVoxels := fv\<rparr>"
  have gc: "generate_Component (CaveGen ?gen) [] r1 = Some (Inr (CaveGen ?gen', grid, r2))"
    using g(1) by (simp add: generate_Component_def)
  have "distinct (map fst grid)" by (rule generate_Component_distinct[OF gc]) simp
  then have "distinct (map fst (hashOrder grid))" by (rule perm_distinct[OF assms(3)])
  from extractPrimitives_returns[OF this] obtain ps where
    e: "extractPrimitives (hashOrder grid) = Some ps" by blast
  have "6 * 5 \<le> nat (l - 2) * nat (w - 2)"
    by (rule mult_le_mono) (use b(2,3) in simp_all)
  then have "30 \<le> length fv" using g(2) dims by simp
  then have lfv: "?n \<le> int (length fv)" using assms(2) by linarith
  have x: "levelExit_Component (CaveGen ?gen') grid r2 =
        Inr (scanExit grid (min 3 ?n) fv (length fv), r2)"
    using b(3) dims by (simp add: levelExit_Component_def levelExit_Cave_def Let_def)
  have sl0: "slice fv 0 ?n = Inr (take (nat ?n) fv)"
    using slice_ok[of 0 ?n fv] lfv assms(1) by simp
  have sp: "startingPositions_Component (CaveGen ?gen') grid r2 = Inr (take (nat ?n) fv, r2)"
    using sl0 dims by (simp add: startingPositions_Component_def startingPositions_Cave_def)
  obtain sh r3 where shf: "shuffle (take (nat ?n) fv) r2 = (sh, r3)"
    by (cases "shuffle (take (nat ?n) fv) r2")
  have lsh: "int (length sh) = ?n"
    using shuffle_length[of "take (nat ?n) fv" r2] shf lfv assms(1) by simp
  have sl: "slice sh 0 ?n = Inr (take (nat ?n) sh)"
    using slice_ok[of 0 ?n sh] lsh assms(1) by simp
  have pr: "placeRegions env (CaveGen ?gen') grid ps r2 =
      Inr (env\<lparr>envRng := r3, episodeDuration := 0, envGrid := grid,
               layoutGenerator := Some (CaveGen ?gen'), layoutDrawables := ps,
               exitPad := scanExit grid (min 3 ?n) fv (length fv),
               agentStartingPositions := take (nat ?n) sh\<rparr>)"
    using x sp shf sl by (simp add: placeRegions_def)
  have "Env_reset mt hashOrder Cave env = Some (placeRegions env (CaveGen ?gen') grid ps r2)"
    by (rule Env_reset_run[where mt = mt and hashOrder = hashOrder, OF s ic gc e])
  then show ?thesis using pr lsh assms(1) by simp
qed

lemma placeWalls_room:
  assumes "0 \<le> maxNumWalls gen" "maxNumWalls gen \<le> 13" "1 \<le> tallestWall gen" "walls gen = []"
    "maxWallX gen = 0"
  shows "\<exists>gen' rng' numWalls warned.
           placeWalls gen rng = Inr (gen', rng', numWalls, warned) \<and>
           7 \<le> length' gen' \<and> 0 \<le> maxWallX gen' \<and> maxWallX gen' < length' gen' - 3 \<and>
           (\<forall>w\<in>set (walls gen'). 1 \<le> snd w) \<and>
           width gen' = width gen \<and> numAgents gen' = numAgents gen \<and>
           (firstWallX gen' = firstWallX gen \<or> 4 \<le> firstWallX gen')"
proof -
  obtain numWalls r1 where n: "randRange 0 (maxNumWalls gen + 1) rng = Inr (numWalls, r1)"
    "0 \<le> numWalls" "numWalls < maxNumWalls gen + 1"
    using randRange_ok[of 0 "maxNumWalls gen + 1" rng] assms(1) by auto
  let ?minLength = "numWalls * 2 + 4 + 3"
  obtain l r2 where l: "randRange ?minLength 35 r1 = Inr (l, r2)" "?minLength \<le> l" "l < 35"
    using randRange_ok[of ?minLength 35 r1] n(3) assms(2) by auto
  let ?g0 = "gen\<lparr>length' := l\<rparr>"
  show ?thesis
  proof (cases "numWalls \<le> 0")
    case True
    then have "placeWalls gen rng = Inr (?g0, r2, numWalls, [])"
      using n l by (simp add: placeWalls_def Let_def)
    then show ?thesis
      using assms True n(2) l(2)
      by (intro exI[of _ ?g0] exI[of _ r2] exI[of _ numWalls] exI[of _ "[]"]) simp
  next
    case False
    obtain fwx r3 where f: "randRange 4 (4 + 1 + l - ?minLength) r2 = Inr (fwx, r3)"
      "4 \<le> fwx" "fwx < 4 + 1 + l - ?minLength"
      using randRange_ok[of 4 "4 + 1 + l - ?minLength" r2] l(2) by auto
    obtain fh r4 where h: "randRange 1 (tallestWall gen + 1) r3 = Inr (fh, r4)" "1 \<le> fh"
      using randRange_ok[of 1 "tallestWall gen + 1" r3] assms(3) by auto
    let ?g1 = "?g0\<lparr>firstWallX := fwx, maxWallX := fwx, maxWallHeight := fh,
                    walls := walls ?g0 @ [(fwx, fh)]\<rparr>"
    have p1: "1 \<le> tallestWall ?g1" using assms(3) by simp
    have p2: "\<forall>i\<in>set [1..numWalls - 1]. i \<le> numWalls - 1" by simp
    from placeNextWalls_ok[OF p1 p2, of fwx r4] obtain gen' rng' warned new where
      rec: "placeNextWalls numWalls [1..numWalls - 1] fwx ?g1 r4 = Inr (gen', rng', warned)"
        "gen' = ?g1\<lparr>walls := walls ?g1 @ new, maxWallHeight := maxWallHeight gen',
                      maxWallX := maxWallX gen'\<rparr>"
        "wallsOk fwx (length' ?g1) new"
        "maxWallX ?g1 \<le> maxWallX gen'"
        "maxWallX ?g1 < length' ?g1 - 3 \<longrightarrow> maxWallX gen' < length' ?g1 - 3"
      by blast
    have run: "placeWalls gen rng = Inr (gen', rng', numWalls, warned)"
      using n l f h False rec(1) by (simp add: placeWalls_def Let_def)
    have w: "walls gen' = (fwx, fh) # new" "firstWallX gen' = fwx" "length' gen' = l"
      "width gen' = width gen" "numAgents gen' = numAgents gen"
      by (subst rec(2), simp add: assms(4))+
    have "fwx < l - 3" using f(3) False by simp
    then have mx: "maxWallX gen' < l - 3" "0 \<le> maxWallX gen'" using rec(4,5) f(2) by simp_all
    have "7 \<le> l" using l(2) n(2) by simp
    then show ?thesis
      using run w rec(3) h(2) f(2) mx
      by (intro exI[of _ gen'] exI[of _ rng'] exI[of _ numWalls] exI[of _ warned])
         (auto simp: wallsOk_def)
  qed
qed

lemma placeSpawns_Walls_agents:
  assumes "0 \<le> numAgents gen" "numAgents gen \<le> int (length (spawnCandidates_Walls gen))"
    "\<forall>w\<in>set (walls gen). 1 \<le> snd w"
  shows "\<exists>h a ob rng'. placeSpawns_Walls gen rng =
           Inr (gen\<lparr>height := h, agentSpawnCoords := a, objectSpawnCoords := ob\<rparr>, rng') \<and>
           int (length a) = numAgents gen"
proof -
  obtain h r1 where h: "randRange 3 5 rng = Inr (h, r1)"
    using randRange_ok[of 3 5 rng] by auto
  let ?gen = "gen\<lparr>height := h + maxWallHeight gen\<rparr>"
  have same: "spawnCandidates_Walls ?gen = spawnCandidates_Walls gen"
    by (simp add: spawnCandidates_Walls_def)
  obtain cands r2 where c: "shuffle (spawnCandidates_Walls ?gen) r1 = (cands, r2)"
    by (cases "shuffle (spawnCandidates_Walls ?gen) r1")
  have len: "length cands = length (spawnCandidates_Walls gen)"
    using shuffle_length[of "spawnCandidates_Walls ?gen" r1] c same by simp
  let ?m = "fold (\<lambda>wall m. m + (snd wall - 1) * 2) (walls ?gen) 0"
  have m: "0 \<le> ?m" using assms(3) by (intro minNumObjects_nonneg) simp_all
  obtain n r3 where n: "randRange ?m (?m + 4) r2 = Inr (n, r3)" "?m \<le> n"
    using randRange_ok[of ?m "?m + 4" r2] by auto
  let ?n = "min n (int (length cands) - (0 + numAgents ?gen))"
  have n0: "0 \<le> ?n" using n(2) m assms(2) len by simp
  have na: "numAgents ?gen = numAgents gen" by simp
  have a: "slice cands 0 (numAgents ?gen) = Inr (take (nat (numAgents gen)) cands)"
    using slice_ok[of 0 "numAgents ?gen" cands] assms(1,2) len by simp
  have la: "int (length (take (nat (numAgents gen)) cands)) = numAgents gen"
    using assms(1,2) len by simp
  have n1: "?n \<le> int (length cands) - (0 + numAgents ?gen)" by simp
  have "0 \<le> 0 + numAgents ?gen \<and> 0 + numAgents ?gen \<le> 0 + numAgents ?gen + ?n \<and>
        0 + numAgents ?gen + ?n \<le> int (length cands)"
    using assms(1) n0 n1 unfolding na by linarith
  then obtain ob where ob: "slice cands (0 + numAgents ?gen) (0 + numAgents ?gen + ?n) = Inr ob"
    using slice_ok by blast
  have "placeSpawns_Walls gen rng =
      Inr (gen\<lparr>height := h + maxWallHeight gen, agentSpawnCoords := take (nat (numAgents gen)) cands,
               objectSpawnCoords := ob\<rparr>, r3)"
    using h c n(1) a ob by (simp add: placeSpawns_Walls_def Let_def)
  with la show ?thesis by blast
qed

text \<open>With at most 10 agents and the Walls archetype \<open>reset\<close> returns, whatever the seed.\<close>

lemma Env_reset_returns_Walls:
  assumes "0 \<le> envNumAgents env" "envNumAgents env \<le> 10" "\<And>g. mset (hashOrder g) = mset g"
  shows "\<exists>env'. Env_reset mt hashOrder Walls env = Some (Inr env') \<and>
           int (length (agentStartingPositions env')) = envNumAgents env"
proof -
  let ?n = "envNumAgents env"
  obtain seed r0 where s: "randRange 0 10000 (envRng env) = Inr (seed, r0)"
    using randRange_ok[of 0 10000 "envRng env"] by auto
  obtain l w h ra where b: "init_Basic (newWalls ?n) (mt seed) =
      Inr (newWalls ?n\<lparr>length' := l, width := w, height := h\<rparr>, ra)" "7 \<le> w"
    using init_Basic_ok[of "newWalls ?n" "mt seed"] by auto
  let ?g1 = "newWalls ?n\<lparr>length' := l, width := w, height := h\<rparr>"
  have pre: "0 \<le> maxNumWalls ?g1" "maxNumWalls ?g1 \<le> 13" "1 \<le> tallestWall ?g1" "walls ?g1 = []"
    "maxWallX ?g1 = 0"
    by (simp_all add: newWalls_def)
  from placeWalls_room[OF pre, of ra] obtain g2 rb numWalls warned where
    p: "placeWalls ?g1 ra = Inr (g2, rb, numWalls, warned)"
      "7 \<le> length' g2" "0 \<le> maxWallX g2" "maxWallX g2 < length' g2 - 3"
      "\<forall>w\<in>set (walls g2). 1 \<le> snd w"
      "width g2 = width ?g1" "numAgents g2 = numAgents ?g1"
      "firstWallX g2 = firstWallX ?g1 \<or> 4 \<le> firstWallX g2"
    by blast
  have w2: "width g2 = w" and n2: "numAgents g2 = ?n" using p(6,7) by (simp_all add: newWalls_def)
  have "3 \<le> firstWallX g2" using p(8) by (auto simp: newWalls_def)
  then have "2 \<le> nat (firstWallX g2 - 1)" by simp
  moreover have "5 \<le> nat (width g2 - 2)" using w2 b(2) by simp
  ultimately have "2 * 5 \<le> nat (firstWallX g2 - 1) * nat (width g2 - 2)"
    by (rule mult_le_mono)
  then have "10 \<le> length (spawnCandidates_Walls g2)"
    by (simp add: length_spawnCandidates_Walls)
  then have c: "numAgents g2 \<le> int (length (spawnCandidates_Walls g2))"
    using assms(2) n2 by linarith
  have a0: "0 \<le> numAgents g2" using assms(1) n2 by simp
  from placeSpawns_Walls_agents[OF a0 c p(5), of rb] obtain hh a ob r1 where
    sp: "placeSpawns_Walls g2 rb =
           Inr (g2\<lparr>height := hh, agentSpawnCoords := a, objectSpawnCoords := ob\<rparr>, r1)"
      "int (length a) = numAgents g2"
    by blast
  let ?gen = "g2\<lparr>height := hh, agentSpawnCoords := a, objectSpawnCoords := ob\<rparr>"
  have i: "init_Walls (newWalls ?n) (mt seed) = Inr (?gen, r1, numWalls, warned)"
    using b(1) p(1) sp(1) by (simp add: init_Walls_def)
  have ic: "init_Component ?n Walls (mt seed) = Inr (WallsGen ?gen, r1)"
    using i by (simp add: init_Component_def)
  have "generate_Basic ?gen [] = Some (shellGrid ?gen [])"
    by (rule generate_Basic_run) (use p(2) w2 b(2) in simp_all)
  then obtain grid where g: "generate_Walls ?gen [] = Some grid"
    by (simp add: generate_Walls_def)
  have gc: "generate_Component (WallsGen ?gen) [] r1 = Some (Inr (WallsGen ?gen, grid, r1))"
    using g by (simp add: generate_Component_def)
  have "distinct (map fst grid)" by (rule generate_Component_distinct[OF gc]) simp
  then have "distinct (map fst (hashOrder grid))" by (rule perm_distinct[OF assms(3)])
  from extractPrimitives_returns[OF this] obtain ps where
    e: "extractPrimitives (hashOrder grid) = Some ps" by blast
  obtain exitX r2 where ex: "randRange (maxWallX ?gen + 1) (length' ?gen - 1) r1 = Inr (exitX, r2)"
    using randRange_ok[of "maxWallX ?gen + 1" "length' ?gen - 1" r1] p(4) by auto
  have "1 < width ?gen - 1 - min 3 ?n" using w2 b(2) by simp
  then obtain exitZ r3 where ez: "randRange 1 (width ?gen - 1 - min 3 ?n) r2 = Inr (exitZ, r3)"
    using randRange_ok[of 1 "width ?gen - 1 - min 3 ?n" r2] by blast
  have x: "levelExit_Component (WallsGen ?gen) grid r1 =
      Inr (\<lparr>bmin = VoxelCoords exitX 1 exitZ,
            bmax = VoxelCoords (exitX + 1) 2 (exitZ + min 3 ?n)\<rparr>, r3)"
    using ex ez w2 b(2) n2 by (simp add: levelExit_Component_def levelExit_Walls_def Let_def)
  have stp: "startingPositions_Component (WallsGen ?gen) grid r3 = Inr (a, r3)"
    by (simp add: startingPositions_Component_def startingPositions_Walls_def)
  obtain sh r4 where shf: "shuffle a r3 = (sh, r4)" by (cases "shuffle a r3")
  have lsh: "int (length sh) = ?n"
    using shuffle_length[of a r3] shf sp(2) n2 by simp
  have sl: "slice sh 0 ?n = Inr (take (nat ?n) sh)"
    using slice_ok[of 0 ?n sh] lsh assms(1) by simp
  have pr: "placeRegions env (WallsGen ?gen) grid ps r1 =
      Inr (env\<lparr>envRng := r4, episodeDuration := 0, envGrid := grid,
               layoutGenerator := Some (WallsGen ?gen), layoutDrawables := ps,
               exitPad := \<lparr>bmin = VoxelCoords exitX 1 exitZ,
                            bmax = VoxelCoords (exitX + 1) 2 (exitZ + min 3 ?n)\<rparr>,
               agentStartingPositions := take (nat ?n) sh\<rparr>)"
    using x stp shf sl by (simp add: placeRegions_def)
  have "Env_reset mt hashOrder Walls env = Some (placeRegions env (WallsGen ?gen) grid ps r1)"
    by (rule Env_reset_run[where mt = mt and hashOrder = hashOrder, OF s ic gc e])
  then show ?thesis using pr lsh assms(1) by simp
qed

section \<open>The environment: what a reset after a seed determines\<close>

text \<open>
  The first primitive is the box grown from the first solid entry that the iteration
  yields.
\<close>

lemma extractLoop_prefix:
  "extractLoop grid rest visited acc = Some ps \<Longrightarrow> \<exists>more. ps = acc @ more"
proof (induction rest arbitrary: visited acc)
  case Nil
  then show ?case by simp
next
  case (Cons e rest)
  obtain coord voxel where e: "e = (coord, voxel)" by (cases e)
  show ?case
  proof (cases "\<not> solid voxel \<or> coord \<in> visited")
    case True
    then show ?thesis using Cons e by auto
  next
    case False
    with Cons.prems e obtain visited' bbox where
      "extractLoop grid rest visited' (acc @ [bbox]) = Some ps"
      by (auto split: option.splits)
    from Cons.IH[OF this] show ?thesis by auto
  qed
qed

lemma extractPrimitives_first:
  assumes "grid = (c, v) # rest" "solid v"
    "expandAll grid signedDirections {c} \<lparr>bmin = c, bmax = c\<rparr> = Some (visited, box)"
    "extractPrimitives grid = Some ps"
  shows "\<exists>more. ps = box # more"
proof -
  have "extractLoop grid rest visited ([] @ [box]) = Some ps"
    using assms by (simp add: extractPrimitives_def)
  from extractLoop_prefix[OF this] show ?thesis by simp
qed

text \<open>
  \<open>toFront c\<close> is an iteration order, and the entry of \<open>c\<close> is the first it yields.
\<close>

lemma toFront_perm: "mset (toFront c grid) = mset grid"
  by (simp add: toFront_def)

lemma filter_key:
  "distinct (map fst grid) \<Longrightarrow> map_of grid c = Some v \<Longrightarrow> filter (\<lambda>e. fst e = c) grid = [(c, v)]"
proof (induction grid)
  case Nil
  then show ?case by simp
next
  case (Cons e grid)
  show ?case
  proof (cases "fst e = c")
    case True
    then have "\<forall>e'\<in>set grid. fst e' \<noteq> c" using Cons.prems(1) by (auto simp: image_iff)
    then have "filter (\<lambda>e. fst e = c) grid = []" by (simp add: filter_empty_conv)
    then show ?thesis using True Cons.prems(2) by (cases e) auto
  next
    case False
    then show ?thesis using Cons by (cases e) auto
  qed
qed

lemma toFront_head:
  assumes "distinct (map fst grid)" "grid_get grid c = Some v"
  shows "toFront c grid = (c, v) # filter (\<lambda>e. fst e \<noteq> c) grid"
  using filter_key[OF assms(1), of c v] assms(2) by (simp add: toFront_def grid_get_def)

text \<open>
  The boxes grown from the corner voxel and from the floor voxel beside it, on a grid
  whose solid voxels are those of the shell of an 8 by 4 by 10 level: the wall slab at
  z = 0, and the whole floor.
\<close>

lemma first_box_wall:
  assumes S: "\<And>x y z. isSolid g (VoxelCoords x y z) \<longleftrightarrow>
      (0 \<le> x \<and> x < 8 \<and> 0 \<le> y \<and> y < 4 \<and> (z = 0 \<or> z = 9)) \<or>
      ((x = 0 \<or> x = 7) \<and> 0 \<le> y \<and> y < 4 \<and> 0 \<le> z \<and> z < 10) \<or>
      (0 \<le> x \<and> x < 8 \<and> y = 0 \<and> 0 \<le> z \<and> z < 10)"
  shows "\<exists>V. expandAll g signedDirections {VoxelCoords 0 0 0}
            \<lparr>bmin = VoxelCoords 0 0 0, bmax = VoxelCoords 0 0 0\<rparr> =
          Some (V, \<lparr>bmin = VoxelCoords 0 0 0, bmax = VoxelCoords 7 3 0\<rparr>)"
  by (simp add: S signedDirections_def directions_def scaleDir_def expandDir.simps layerCoords_def
      startEndCoord_def canTake_def commitExpansion_def addPoint_def Let_def upto.simps)

lemma first_box_floor:
  assumes S: "\<And>x y z. isSolid g (VoxelCoords x y z) \<longleftrightarrow>
      (0 \<le> x \<and> x < 8 \<and> 0 \<le> y \<and> y < 4 \<and> (z = 0 \<or> z = 9)) \<or>
      ((x = 0 \<or> x = 7) \<and> 0 \<le> y \<and> y < 4 \<and> 0 \<le> z \<and> z < 10) \<or>
      (0 \<le> x \<and> x < 8 \<and> y = 0 \<and> 0 \<le> z \<and> z < 10)"
  shows "\<exists>V. expandAll g signedDirections {VoxelCoords 0 0 1}
            \<lparr>bmin = VoxelCoords 0 0 1, bmax = VoxelCoords 0 0 1\<rparr> =
          Some (V, \<lparr>bmin = VoxelCoords 0 0 0, bmax = VoxelCoords 7 0 9\<rparr>)"
  by (simp add: S signedDirections_def directions_def scaleDir_def expandDir.simps layerCoords_def
      startEndCoord_def canTake_def commitExpansion_def addPoint_def Let_def upto.simps)

text \<open>
  The reset of \<open>envA\<close> after a seed of 0: the level is 8 by 4 by 10, and the primitives
  are those of its shell in the order in which the map yields the entries.
\<close>

lemma reset_example:
  assumes "\<And>g. mset (hashOrder g) = mset g"
  shows "\<exists>res. Env_reset mtExample hashOrder Empty (Env_seed mtExample 0 envA) = Some (Inr res) \<and>
    extractPrimitives
      (hashOrder (shellGrid \<lparr>numAgents = 1, length' = 8, height = 4, width = 10\<rparr> [])) =
    Some (layoutDrawables res)"
proof -
  let ?E = "Env_seed mtExample 0 envA"
  let ?gen = "\<lparr>numAgents = 1, length' = 8, height = 4, width = 10\<rparr>"
  have n: "envNumAgents ?E = 1" by (simp add: Env_seed_def envA_def)
  from Env_reset_returns[OF n assms, of mtExample] obtain res where
    r: "Env_reset mtExample hashOrder Empty ?E = Some (Inr res)" by blast
  from Env_reset_cases[OF r] obtain seed r0 generator r1 generator' grid r2 ps where
    c: "randRange 0 10000 (envRng ?E) = Inr (seed, r0)"
      "init_Component (envNumAgents ?E) Empty (mtExample seed) = Inr (generator, r1)"
      "generate_Component generator [] r1 = Some (Inr (generator', grid, r2))"
      "extractPrimitives (hashOrder grid) = Some ps"
      "placeRegions ?E generator' grid ps r2 = Inr res"
    by blast
  have seed: "seed = 0"
    using c(1) by (simp add: Env_seed_def mtExample_def randRange_def)
  have gen: "generator = BasicGen ?gen"
    using c(2) unfolding seed n
    by (simp add: init_Component_def init_Basic_def init_GridLayoutImpl_def mtExample_def
        randRange_def newBasic_def)
  have "generate_Basic ?gen [] = Some (shellGrid ?gen [])"
    by (rule generate_Basic_run) simp_all
  then have grid: "grid = shellGrid ?gen []"
    using c(3) unfolding gen by (simp add: generate_Component_def)
  show ?thesis using r c(4) placeRegions_drawables[OF c(5)] grid by simp
qed

lemma shell_example_solid:
  "isSolid (shellGrid \<lparr>numAgents = 1, length' = 8, height = 4, width = 10\<rparr> []) (VoxelCoords x y z) \<longleftrightarrow>
      (0 \<le> x \<and> x < 8 \<and> 0 \<le> y \<and> y < 4 \<and> (z = 0 \<or> z = 9)) \<or>
      ((x = 0 \<or> x = 7) \<and> 0 \<le> y \<and> y < 4 \<and> 0 \<le> z \<and> z < 10) \<or>
      (0 \<le> x \<and> x < 8 \<and> y = 0 \<and> 0 \<le> z \<and> z < 10)"
proof -
  let ?gen = "\<lparr>numAgents = 1, length' = 8, height = 4, width = 10\<rparr>"
  have h: "2 \<le> length' ?gen" "2 \<le> width ?gen" by simp_all
  from generate_Basic_get[OF h, of "[]"] generate_Basic_run[OF h, of "[]"]
  show ?thesis by (auto simp: isSolid_def grid_get_Nil solidVoxel_def)
qed

lemma toFront_first_box:
  assumes "isSolid (shellGrid \<lparr>numAgents = 1, length' = 8, height = 4, width = 10\<rparr> []) c"
    "\<And>g. (\<And>x y z. isSolid g (VoxelCoords x y z) \<longleftrightarrow>
      (0 \<le> x \<and> x < 8 \<and> 0 \<le> y \<and> y < 4 \<and> (z = 0 \<or> z = 9)) \<or>
      ((x = 0 \<or> x = 7) \<and> 0 \<le> y \<and> y < 4 \<and> 0 \<le> z \<and> z < 10) \<or>
      (0 \<le> x \<and> x < 8 \<and> y = 0 \<and> 0 \<le> z \<and> z < 10)) \<Longrightarrow>
      \<exists>V. expandAll g signedDirections {c} \<lparr>bmin = c, bmax = c\<rparr> = Some (V, box)"
    "extractPrimitives (toFront c (shellGrid \<lparr>numAgents = 1, length' = 8, height = 4, width = 10\<rparr> [])) = Some ps"
  shows "\<exists>more. ps = box # more"
proof -
  let ?G = "shellGrid \<lparr>numAgents = 1, length' = 8, height = 4, width = 10\<rparr> []"
  have d: "distinct (map fst ?G)" by (rule distinct_shellGrid) simp
  from assms(1) obtain v where v: "grid_get ?G c = Some v" "solid v"
    by (auto simp: isSolid_def split: option.splits)
  have hd: "toFront c ?G = (c, v) # filter (\<lambda>e. fst e \<noteq> c) ?G"
    by (rule toFront_head[OF d v(1)])
  have "isSolid (toFront c ?G) = isSolid ?G"
    by (rule perm_isSolid[OF toFront_perm d])
  then have "\<exists>V. expandAll (toFront c ?G) signedDirections {c} \<lparr>bmin = c, bmax = c\<rparr> = Some (V, box)"
    by (intro assms(2)) (simp add: shell_example_solid)
  then obtain V where
    "expandAll (toFront c ?G) signedDirections {c} \<lparr>bmin = c, bmax = c\<rparr> = Some (V, box)" by blast
  from extractPrimitives_first[OF hd v(2) this assms(3)] show ?thesis .
qed

text \<open>
  Claim C2 says that a reset after the same seed always yields identical primitives. It
  does not: the primitives depend on the order in which the hash map yields its entries,
  which the seed does not fix. After a seed of 0 the level is 8 by 4 by 10. When the
  iteration starts at the corner voxel (0, 0, 0) the first primitive is the wall slab at
  z = 0; when it starts at the floor voxel (0, 0, 1) the first primitive is the whole floor,
  and the floor as one box is not a primitive of the other run.
\<close>

theorem Env_reset_primitives_differ:
  "primitivesOf (Env_reset mtExample (toFront (VoxelCoords 0 0 0)) Empty (Env_seed mtExample 0 envA)) \<noteq> None \<and>
   primitivesOf (Env_reset mtExample (toFront (VoxelCoords 0 0 1)) Empty (Env_seed mtExample 0 envA)) \<noteq> None \<and>
   \<lparr>bmin = VoxelCoords 0 0 0, bmax = VoxelCoords 7 0 9\<rparr> \<in>
     the (primitivesOf (Env_reset mtExample (toFront (VoxelCoords 0 0 1)) Empty (Env_seed mtExample 0 envA))) \<and>
   \<lparr>bmin = VoxelCoords 0 0 0, bmax = VoxelCoords 7 0 9\<rparr> \<notin>
     the (primitivesOf (Env_reset mtExample (toFront (VoxelCoords 0 0 0)) Empty (Env_seed mtExample 0 envA)))"
proof -
  let ?G = "shellGrid \<lparr>numAgents = 1, length' = 8, height = 4, width = 10\<rparr> []"
  let ?wall = "\<lparr>bmin = VoxelCoords 0 0 0, bmax = VoxelCoords 7 3 0\<rparr>"
  let ?floor = "\<lparr>bmin = VoxelCoords 0 0 0, bmax = VoxelCoords 7 0 9\<rparr>"
  from reset_example[of "toFront (VoxelCoords 0 0 0)", OF toFront_perm] obtain res1 where
    r1: "Env_reset mtExample (toFront (VoxelCoords 0 0 0)) Empty (Env_seed mtExample 0 envA) = Some (Inr res1)"
      "extractPrimitives (toFront (VoxelCoords 0 0 0) ?G) = Some (layoutDrawables res1)"
    by blast
  from reset_example[of "toFront (VoxelCoords 0 0 1)", OF toFront_perm] obtain res2 where
    r2: "Env_reset mtExample (toFront (VoxelCoords 0 0 1)) Empty (Env_seed mtExample 0 envA) = Some (Inr res2)"
      "extractPrimitives (toFront (VoxelCoords 0 0 1) ?G) = Some (layoutDrawables res2)"
    by blast
  have "isSolid ?G (VoxelCoords 0 0 0)" by (simp add: shell_example_solid)
  from toFront_first_box[OF this first_box_wall r1(2)] obtain more1 where
    m1: "layoutDrawables res1 = ?wall # more1" by blast
  have "isSolid ?G (VoxelCoords 0 0 1)" by (simp add: shell_example_solid)
  from toFront_first_box[OF this first_box_floor r2(2)] obtain more2 where
    m2: "layoutDrawables res2 = ?floor # more2" by blast
  have d: "distinct (map fst (toFront (VoxelCoords 0 0 0) ?G))"
    by (rule perm_distinct[OF toFront_perm]) (rule distinct_shellGrid, simp)
  from extractPrimitives_cover[OF d] r1(2) have dj: "disjointBoxes (layoutDrawables res1)" by auto
  have notin: "?floor \<notin> set (layoutDrawables res1)"
  proof
    assume "?floor \<in> set (layoutDrawables res1)"
    then have "?floor \<in> set more1" using m1 by simp
    then obtain j where j: "j < length more1" "more1 ! j = ?floor" by (auto simp: in_set_conv_nth)
    have "coverage (layoutDrawables res1 ! 0) \<inter> coverage (layoutDrawables res1 ! Suc j) = {}"
      using dj j(1) m1 unfolding disjointBoxes_def by (metis length_Cons Suc_less_eq zero_less_Suc nat.distinct(1))
    moreover have "VoxelCoords 0 0 0 \<in> coverage ?wall \<inter> coverage ?floor" by (simp add: coverage_def)
    ultimately show False using m1 j(2) by auto
  qed
  show ?thesis using r1(1) r2(1) m2 notin by (simp add: primitivesOf_def)
qed

text \<open>
  Claim C2, amended. Seeding with the same value and resetting, from any two states of the
  environment with the same number of agents and under any two iteration orders of the
  hash map: when one reset completes, so does the other, and the two leave identical
  voxel-grid contents, the same exit pad, the same starting positions, the same generator
  and the same state of the sequencer. The primitives of each run are pairwise disjoint
  boxes that cover exactly the solid voxels of that grid; they need not be the same boxes.
\<close>

theorem Env_reset_determined:
  assumes "envNumAgents env1 = envNumAgents env2"
    and "\<And>g. mset (order1 g) = mset g" and "\<And>g. mset (order2 g) = mset g"
    and "Env_reset mt order1 layoutType (Env_seed mt seedValue env1) = Some (Inr res1)"
  shows "\<exists>res2. Env_reset mt order2 layoutType (Env_seed mt seedValue env2) = Some (Inr res2) \<and>
     grid_get (envGrid res2) = grid_get (envGrid res1) \<and> exitPad res2 = exitPad res1 \<and>
     agentStartingPositions res2 = agentStartingPositions res1 \<and>
     envRng res2 = envRng res1 \<and> layoutGenerator res2 = layoutGenerator res1 \<and>
     episodeDuration res2 = episodeDuration res1 \<and> envNumAgents res2 = envNumAgents res1 \<and>
     disjointBoxes (layoutDrawables res1) \<and> disjointBoxes (layoutDrawables res2) \<and>
     \<Union> (coverage ` set (layoutDrawables res1)) = {c. isSolid (envGrid res1) c} \<and>
     \<Union> (coverage ` set (layoutDrawables res2)) = {c. isSolid (envGrid res1) c}"
proof -
  let ?e1 = "Env_seed mt seedValue env1" and ?e2 = "Env_seed mt seedValue env2"
  have rng: "envRng ?e1 = envRng ?e2" and na: "envNumAgents ?e2 = envNumAgents ?e1"
    using assms(1) by (simp_all add: Env_seed_def)
  from Env_reset_cases[OF assms(4)] obtain seed r0 generator r1 generator' grid r2 ps1 where
    c: "randRange 0 10000 (envRng ?e1) = Inr (seed, r0)"
      "init_Component (envNumAgents ?e1) layoutType (mt seed) = Inr (generator, r1)"
      "generate_Component generator [] r1 = Some (Inr (generator', grid, r2))"
      "extractPrimitives (order1 grid) = Some ps1"
      "placeRegions ?e1 generator' grid ps1 r2 = Inr res1"
    by blast
  have d: "distinct (map fst grid)"
    by (rule generate_Component_distinct[OF c(3)]) simp
  have d1: "distinct (map fst (order1 grid))" and d2: "distinct (map fst (order2 grid))"
    using perm_distinct[OF assms(2) d] perm_distinct[OF assms(3) d] by simp_all
  from extractPrimitives_cover[OF d1] c(4) have p1:
    "disjointBoxes ps1" "\<Union> (coverage ` set ps1) = {c. isSolid grid c}"
    by (auto simp: perm_isSolid[OF assms(2) d])
  from extractPrimitives_cover[OF d2] obtain ps2 where p2:
    "extractPrimitives (order2 grid) = Some ps2"
    "disjointBoxes ps2" "\<Union> (coverage ` set ps2) = {c. isSolid grid c}"
    by (auto simp: perm_isSolid[OF assms(3) d])
  from placeRegions_shape[OF c(5)] obtain pad positions rng' where
    s: "\<And>env' ps'. envNumAgents env' = envNumAgents ?e1 \<Longrightarrow>
     placeRegions env' generator' grid ps' r2 =
       Inr (env'\<lparr>envRng := rng', episodeDuration := 0, envGrid := grid,
                 layoutGenerator := Some generator', layoutDrawables := ps',
                 exitPad := pad, agentStartingPositions := positions\<rparr>)"
    by blast
  have r1: "res1 = ?e1\<lparr>envRng := rng', episodeDuration := 0, envGrid := grid,
                 layoutGenerator := Some generator', layoutDrawables := ps1,
                 exitPad := pad, agentStartingPositions := positions\<rparr>"
    using s[OF refl, of ps1] c(5) by simp
  let ?res2 = "?e2\<lparr>envRng := rng', episodeDuration := 0, envGrid := grid,
                 layoutGenerator := Some generator', layoutDrawables := ps2,
                 exitPad := pad, agentStartingPositions := positions\<rparr>"
  have "Env_reset mt order2 layoutType ?e2 = Some (placeRegions ?e2 generator' grid ps2 r2)"
    by (rule Env_reset_run[where seed = seed and ?r0.0 = r0 and generator = generator and ?r1.0 = r1])
      (use c p2(1) rng na in simp_all)
  then have run2: "Env_reset mt order2 layoutType ?e2 = Some (Inr ?res2)"
    using s[OF na, of ps2] by simp
  show ?thesis
    using run2 p1 p2(2,3) assms(1) unfolding r1
    by (intro exI[of _ ?res2]) (simp add: Env_seed_def)
qed

theorem Env_reset_determined_witness:
  "envNumAgents envA = envNumAgents envB \<and> envGrid envA \<noteq> envGrid envB \<and>
   (\<exists>res1 res2.
      Env_reset mtExample (toFront (VoxelCoords 0 0 0)) Empty (Env_seed mtExample 42 envA) =
        Some (Inr res1) \<and>
      Env_reset mtExample rev Empty (Env_seed mtExample 42 envB) = Some (Inr res2) \<and>
      grid_get (envGrid res2) = grid_get (envGrid res1) \<and> exitPad res2 = exitPad res1 \<and>
      agentStartingPositions res2 = agentStartingPositions res1 \<and> envRng res2 = envRng res1 \<and>
      \<Union> (coverage ` set (layoutDrawables res1)) = {c. isSolid (envGrid res1) c} \<and>
      \<Union> (coverage ` set (layoutDrawables res2)) = {c. isSolid (envGrid res1) c})"
proof -
  have h: "envNumAgents envA = envNumAgents envB" by (simp add: envA_def envB_def)
  have d: "envGrid envA \<noteq> envGrid envB" by (simp add: envA_def envB_def)
  have p1: "\<And>g. mset (toFront (VoxelCoords 0 0 0) g) = mset g" by (rule toFront_perm)
  have p2: "\<And>g :: VoxelGrid. mset (rev g) = mset g" by simp
  have "envNumAgents (Env_seed mtExample 42 envA) = 1" by (simp add: Env_seed_def envA_def)
  from Env_reset_returns[OF this p1, of mtExample] obtain res1 where
    r: "Env_reset mtExample (toFront (VoxelCoords 0 0 0)) Empty (Env_seed mtExample 42 envA) =
          Some (Inr res1)"
    by blast
  from Env_reset_determined[where ?order1.0 = "toFront (VoxelCoords 0 0 0)" and ?order2.0 = rev,
      OF h p1 p2 r] h d r
  show ?thesis by blast
qed

end
